theory Spec2Isabelle
  imports
    Main
    "HOL-Library.Word"
    "HOL-Library.Sublist"
    "HOL-Library.Multiset"
    "HOL-Library.List_Lexorder"
    "HOL-Library.Product_Lexorder"
begin

unbundle bit_operations_syntax

section \<open>Data model\<close>

text \<open>
  A Python \<open>str\<close> is a sequence of Unicode code points, a \<open>bytes\<close> object a sequence of
  octets.  SQLite compares \<open>TEXT\<close> values under its default \<open>BINARY\<close> collation, which on
  UTF-8 data is the lexicographic order of the code points (a proper prefix is smaller);
  that is the order \<open>HOL-Library.List_Lexorder\<close> puts on lists.
\<close>

type_synonym pystr = "nat list"
type_synonym byte = "8 word"
type_synonym bytes = "byte list"
type_synonym word32 = "32 word"

text \<open>String literals of the source are ASCII; \<open>ascii\<close> gives their code points.\<close>

definition ascii :: "string \<Rightarrow> pystr" where
  "ascii s = map of_char s"

definition ascii_bytes :: "string \<Rightarrow> bytes" where
  "ascii_bytes s = map of_char s"

text \<open>The exceptions that the modelled code can raise.\<close>

datatype exn =
    ValidationError
  | TypeError
  | UnicodeEncodeError
  | OperationalError
  | OverflowError
  | DataError

text \<open>
  One row of the table \<open>messages\<close> of \<open>storage.py\<close>.  The column \<open>text\<close> is the only
  nullable one; it is called \<open>text_col\<close> because \<open>text\<close> is a keyword here.
\<close>

record message_row =
  message_id :: pystr
  from_msisdn :: pystr
  to_msisdn :: pystr
  ts :: pystr
  text_col :: "pystr option"
  created_at :: pystr

text \<open>
  The state behind \<open>Database\<close>: the rows of \<open>messages\<close> in insertion order, and whether
  the SQLite file can be opened and queried at all (\<open>sqlite3.connect\<close> or \<open>execute\<close>
  raising is \<open>available = False\<close>).
\<close>

record database =
  available :: bool
  messages :: "message_row list"

text \<open>\<open>Config\<close> of \<open>config.py\<close>, as read from the environment.\<close>

record config =
  webhook_secret :: pystr
  database_url :: pystr
  log_level :: pystr

section \<open>models.py: the payload validator\<close>

subsection \<open>The regular expressions\<close>

text \<open>
  The two patterns of \<open>models.py\<close> are matched with \<open>re.match\<close> on a \<open>str\<close>, without
  flags.  The fragment of \<open>re\<close> they use: \<open>^\<close> (\<open>Bol\<close>, position 0 only), \<open>$\<close> (\<open>Eol\<close>: at
  the end of the string, or just before a newline that is the last character), a literal
  character, \<open>\d\<close> (\<open>Digit\<close>: on a \<open>str\<close> pattern any character of Unicode category Nd),
  concatenation, \<open>r?\<close>, \<open>r{n}\<close> and \<open>r+\<close>.
\<close>

datatype re =
    Bol
  | Eol
  | Lit nat
  | Digit
  | Cat re re
  | Opt re
  | Times nat re
  | Plus re

text \<open>
  The decimal digits of the Unicode Character Database (version 14.0, the one of
  CPython 3.11): sixty-one blocks of ten consecutive code points, listed by their first
  one, and the fifty mathematical digits \<open>U+1D7CE\<close> to \<open>U+1D7FF\<close>.
\<close>

definition decimal_blocks :: "nat list" where
  "decimal_blocks =
    [48, 1632, 1776, 1984, 2406, 2534, 2662, 2790, 2918, 3046, 3174, 3302, 3430, 3558,
     3664, 3792, 3872, 4160, 4240, 6112, 6160, 6470, 6608, 6784, 6800, 6992, 7088, 7232,
     7248, 42528, 43216, 43264, 43472, 43504, 43600, 44016, 65296, 66720, 68912, 69734,
     69872, 69942, 70096, 70384, 70736, 70864, 71248, 71360, 71472, 71904, 72016, 72784,
     73040, 73120, 92768, 92864, 93008, 123200, 123632, 125264, 130032]"

definition unicode_decimal :: "nat \<Rightarrow> bool" where
  "unicode_decimal c =
     (list_ex (\<lambda>b. b \<le> c \<and> c < b + 10) decimal_blocks \<or> (120782 \<le> c \<and> c \<le> 120831))"

text \<open>
  A cursor is the number of characters consumed and the rest of the subject.  \<open>re_run r c\<close>
  lists the cursors at which a match of \<open>r\<close> started at \<open>c\<close> can end, in the order in which
  a backtracking matcher tries them (greedy repetition first).
\<close>

type_synonym cursor = "nat \<times> pystr"

primrec iterate_plus :: "(cursor \<Rightarrow> cursor list) \<Rightarrow> nat \<Rightarrow> cursor \<Rightarrow> cursor list" where
  "iterate_plus step 0 c = step c"
| "iterate_plus step (Suc n) c = concat (map (\<lambda>d. iterate_plus step n d @ [d]) (step c))"

primrec iterate_times :: "(cursor \<Rightarrow> cursor list) \<Rightarrow> nat \<Rightarrow> cursor \<Rightarrow> cursor list" where
  "iterate_times step 0 c = [c]"
| "iterate_times step (Suc n) c = concat (map (iterate_times step n) (step c))"

primrec re_run :: "re \<Rightarrow> cursor \<Rightarrow> cursor list" where
  "re_run Bol c = (if fst c = 0 then [c] else [])"
| "re_run Eol c = (if snd c = [] \<or> snd c = [10] then [c] else [])"
| "re_run (Lit a) c =
     (case snd c of [] \<Rightarrow> [] | x # xs \<Rightarrow> if x = a then [(Suc (fst c), xs)] else [])"
| "re_run Digit c =
     (case snd c of [] \<Rightarrow> [] | x # xs \<Rightarrow> if unicode_decimal x then [(Suc (fst c), xs)] else [])"
| "re_run (Cat r s) c = concat (map (re_run s) (re_run r c))"
| "re_run (Opt r) c = re_run r c @ [c]"
| "re_run (Times n r) c = iterate_times (re_run r) n c"
| "re_run (Plus r) c = iterate_plus (re_run r) (length (snd c)) c"

text \<open>\<open>re.match(pattern, v)\<close> is truthy when some match starts at position 0.\<close>

definition re_match :: "re \<Rightarrow> pystr \<Rightarrow> bool" where
  "re_match r v = (re_run r (0, v) \<noteq> [])"

definition seq :: "re list \<Rightarrow> re" where
  "seq rs = foldr Cat (butlast rs) (last rs)"

text \<open>\<^verbatim>\<open>^\+\d+$\<close>\<close>

definition e164_pattern :: re where
  "e164_pattern = seq [Bol, Lit 43, Plus Digit, Eol]"

text \<open>\<^verbatim>\<open>^\d{4}-\d{2}-\d{2}T\d{2}:\d{2}:\d{2}(\.\d+)?Z$\<close>\<close>

definition iso8601_pattern :: re where
  "iso8601_pattern =
     seq [Bol, Times 4 Digit, Lit 45, Times 2 Digit, Lit 45, Times 2 Digit, Lit 84,
          Times 2 Digit, Lit 58, Times 2 Digit, Lit 58, Times 2 Digit,
          Opt (Cat (Lit 46) (Plus Digit)), Lit 90, Eol]"

text \<open>The field validators raise \<open>ValueError\<close>, which pydantic reports in its
  \<open>ValidationError\<close>; \<open>None\<close> stands for the raise.\<close>

definition validate_e164 :: "pystr \<Rightarrow> pystr option" where
  "validate_e164 v = (if \<not> re_match e164_pattern v then None else Some v)"

definition validate_iso8601 :: "pystr \<Rightarrow> pystr option" where
  "validate_iso8601 v = (if \<not> re_match iso8601_pattern v then None else Some v)"

subsection \<open>\<open>WebhookPayload\<close>\<close>

text \<open>
  The value that the JSON parser of pydantic yields for a request body.  An object is the
  list of its members, one binding for each key.
\<close>

datatype json =
    JNull
  | JBool bool
  | JNumber pystr
  | JString pystr
  | JArray "json list"
  | JObject "(pystr \<times> json) list"

record webhook_payload =
  payload_message_id :: pystr
  payload_from :: pystr
  payload_to :: pystr
  payload_ts :: pystr
  payload_text :: "pystr option"

text \<open>
  A field annotated \<open>str\<close> takes a JSON string and nothing else; a required field must be
  present; \<open>Optional[str]\<close> with default \<open>None\<close> also takes \<open>null\<close> and absence.  Each
  function returns \<open>None\<close> when the field is in error.
\<close>

definition required_str :: "(pystr \<times> json) list \<Rightarrow> pystr \<Rightarrow> pystr option" where
  "required_str members key =
     (case map_of members key of Some (JString s) \<Rightarrow> Some s | _ \<Rightarrow> None)"

definition field_message_id :: "(pystr \<times> json) list \<Rightarrow> pystr option" where
  "field_message_id members =
     (case required_str members (ascii ''message_id'') of
        None \<Rightarrow> None
      | Some s \<Rightarrow> if 1 \<le> length s then Some s else None)"

definition field_from :: "(pystr \<times> json) list \<Rightarrow> pystr option" where
  "field_from members =
     (case required_str members (ascii ''from'') of None \<Rightarrow> None | Some s \<Rightarrow> validate_e164 s)"

definition field_to :: "(pystr \<times> json) list \<Rightarrow> pystr option" where
  "field_to members =
     (case required_str members (ascii ''to'') of None \<Rightarrow> None | Some s \<Rightarrow> validate_e164 s)"

definition field_ts :: "(pystr \<times> json) list \<Rightarrow> pystr option" where
  "field_ts members =
     (case required_str members (ascii ''ts'') of None \<Rightarrow> None | Some s \<Rightarrow> validate_iso8601 s)"

definition field_text :: "(pystr \<times> json) list \<Rightarrow> pystr option option" where
  "field_text members =
     (case map_of members (ascii ''text'') of
        None \<Rightarrow> Some None
      | Some JNull \<Rightarrow> Some None
      | Some (JString s) \<Rightarrow> if length s \<le> 4096 then Some (Some s) else None
      | Some _ \<Rightarrow> None)"

text \<open>
  \<open>WebhookPayload.model_validate_json\<close>, applied to the parse of the body (\<open>None\<close> when the
  body is not JSON).  Members other than the five fields are ignored.
\<close>

definition model_validate_json :: "json option \<Rightarrow> exn + webhook_payload" where
  "model_validate_json parsed =
     (case parsed of
        Some (JObject members) \<Rightarrow>
          (case (field_message_id members, field_from members, field_to members,
                 field_ts members, field_text members) of
             (Some m, Some f, Some t, Some s, Some x) \<Rightarrow>
               Inr \<lparr>payload_message_id = m, payload_from = f, payload_to = t,
                    payload_ts = s, payload_text = x\<rparr>
           | _ \<Rightarrow> Inl ValidationError)
      | _ \<Rightarrow> Inl ValidationError)"

section \<open>main.py: the signature verifier\<close>

subsection \<open>\<open>hmac.new(secret, body, hashlib.sha256).hexdigest()\<close>\<close>

text \<open>
  SHA-256 on octets: the sixty-four round constants and the initial hash value (the
  leading fractional bits of the cube and square roots of the first primes), the padding
  to a multiple of 64 bytes, the message schedule, the compression of one block.
\<close>

definition sha256_k :: "word32 list" where
  "sha256_k =
    [1116352408, 1899447441, 3049323471, 3921009573, 961987163, 1508970993,
     2453635748, 2870763221, 3624381080, 310598401, 607225278, 1426881987,
     1925078388, 2162078206, 2614888103, 3248222580, 3835390401, 4022224774,
     264347078, 604807628, 770255983, 1249150122, 1555081692, 1996064986,
     2554220882, 2821834349, 2952996808, 3210313671, 3336571891, 3584528711,
     113926993, 338241895, 666307205, 773529912, 1294757372, 1396182291,
     1695183700, 1986661051, 2177026350, 2456956037, 2730485921, 2820302411,
     3259730800, 3345764771, 3516065817, 3600352804, 4094571909, 275423344,
     430227734, 506948616, 659060556, 883997877, 958139571, 1322822218,
     1537002063, 1747873779, 1955562222, 2024104815, 2227730452, 2361852424,
     2428436474, 2756734187, 3204031479, 3329325298]"

definition sha256_init :: "word32 list" where
  "sha256_init =
    [1779033703, 3144134277, 1013904242, 2773480762,
     1359893119, 2600822924, 528734635, 1541459225]"

definition sha256_pad :: "bytes \<Rightarrow> bytes" where
  "sha256_pad m =
     m @ [128] @ replicate ((64 - (length m + 9) mod 64) mod 64) 0 @
     map (\<lambda>i. ucast (drop_bit (8 * i) (word_of_nat (8 * length m) :: 64 word)))
       [7, 6, 5, 4, 3, 2, 1, 0]"

fun be_words :: "bytes \<Rightarrow> word32 list" where
  "be_words (a # b # c # d # rest) =
     (push_bit 24 (ucast a) OR push_bit 16 (ucast b) OR push_bit 8 (ucast c) OR ucast d)
       # be_words rest"
| "be_words _ = []"

definition be_bytes :: "word32 \<Rightarrow> bytes" where
  "be_bytes w = map (\<lambda>i. ucast (drop_bit (8 * i) w)) [3, 2, 1, 0]"

fun schedule :: "nat \<Rightarrow> word32 list \<Rightarrow> word32 list" where
  "schedule 0 ws = ws"
| "schedule (Suc n) ws =
     (let i = length ws;
          s0 = word_rotr 7 (ws ! (i - 15)) XOR word_rotr 18 (ws ! (i - 15))
                 XOR drop_bit 3 (ws ! (i - 15));
          s1 = word_rotr 17 (ws ! (i - 2)) XOR word_rotr 19 (ws ! (i - 2))
                 XOR drop_bit 10 (ws ! (i - 2))
      in schedule n (ws @ [ws ! (i - 16) + s0 + ws ! (i - 7) + s1]))"

fun sha256_round :: "word32 list \<Rightarrow> word32 \<times> word32 \<Rightarrow> word32 list" where
  "sha256_round [a, b, c, d, e, f, g, h] (k, w) =
     (let s1 = word_rotr 6 e XOR word_rotr 11 e XOR word_rotr 25 e;
          ch = (e AND f) XOR (NOT e AND g);
          t1 = h + s1 + ch + k + w;
          s0 = word_rotr 2 a XOR word_rotr 13 a XOR word_rotr 22 a;
          mj = (a AND b) XOR (a AND c) XOR (b AND c);
          t2 = s0 + mj
      in [t1 + t2, a, b, c, d + t1, e, f, g])"
| "sha256_round st _ = st"

definition sha256_block :: "word32 list \<Rightarrow> bytes \<Rightarrow> word32 list" where
  "sha256_block st blk =
     map2 (+) st (foldl sha256_round st (zip sha256_k (schedule 48 (be_words blk))))"

fun sha256_blocks :: "nat \<Rightarrow> word32 list \<Rightarrow> bytes \<Rightarrow> word32 list" where
  "sha256_blocks 0 st m = st"
| "sha256_blocks (Suc n) st m = sha256_blocks n (sha256_block st (take 64 m)) (drop 64 m)"

definition sha256 :: "bytes \<Rightarrow> bytes" where
  "sha256 m =
     (let p = sha256_pad m
      in concat (map be_bytes (sha256_blocks (length p div 64) sha256_init p)))"

text \<open>HMAC: a key longer than the block is hashed first, then padded with zeros.\<close>

definition hmac_sha256 :: "bytes \<Rightarrow> bytes \<Rightarrow> bytes" where
  "hmac_sha256 key msg =
     (let k0 = (if length key > 64 then sha256 key else key);
          k = k0 @ replicate (64 - length k0) 0
      in sha256 (map (\<lambda>b. b XOR 92) k @ sha256 (map (\<lambda>b. b XOR 54) k @ msg)))"

text \<open>\<open>hexdigest\<close>: two lowercase hexadecimal digits for each octet.\<close>

definition hex_digit :: "nat \<Rightarrow> nat" where
  "hex_digit d = (if d < 10 then 48 + d else 87 + d)"

definition hexdigest :: "bytes \<Rightarrow> pystr" where
  "hexdigest bs = concat (map (\<lambda>b. [hex_digit (unat b div 16), hex_digit (unat b mod 16)]) bs)"

subsection \<open>\<open>str.encode\<close> and \<open>hmac.compare_digest\<close>\<close>

text \<open>
  \<open>config.webhook_secret.encode()\<close> is the UTF-8 encoding; it raises
  \<open>UnicodeEncodeError\<close> on a lone surrogate (which \<open>os.getenv\<close> produces for bytes of
  the environment that are not UTF-8).
\<close>

definition utf8_char :: "nat \<Rightarrow> bytes option" where
  "utf8_char c =
     (if c < 128 then Some [of_nat c]
      else if c < 2048 then Some [of_nat (192 + c div 64), of_nat (128 + c mod 64)]
      else if 55296 \<le> c \<and> c < 57344 then None
      else if c < 65536 then
        Some [of_nat (224 + c div 4096), of_nat (128 + c div 64 mod 64), of_nat (128 + c mod 64)]
      else
        Some [of_nat (240 + c div 262144), of_nat (128 + c div 4096 mod 64),
              of_nat (128 + c div 64 mod 64), of_nat (128 + c mod 64)])"

fun encode :: "pystr \<Rightarrow> exn + bytes" where
  "encode [] = Inr []"
| "encode (c # cs) =
     (case utf8_char c of
        None \<Rightarrow> Inl UnicodeEncodeError
      | Some bs \<Rightarrow> (case encode cs of Inl e \<Rightarrow> Inl e | Inr rest \<Rightarrow> Inr (bs @ rest)))"

text \<open>
  \<open>hmac.compare_digest\<close> on two \<open>str\<close> arguments returns \<open>a == b\<close> when both are ASCII
  and raises \<open>TypeError\<close> otherwise.  (Its running time is independent of where the
  strings differ; time is not part of this model.)
\<close>

definition is_ascii :: "pystr \<Rightarrow> bool" where
  "is_ascii s = list_all (\<lambda>c. c < 128) s"

definition compare_digest :: "pystr \<Rightarrow> pystr \<Rightarrow> exn + bool" where
  "compare_digest a b = (if is_ascii a \<and> is_ascii b then Inr (a = b) else Inl TypeError)"

subsection \<open>\<open>verify_signature\<close>\<close>

text \<open>
  The header value \<open>signature\<close> is \<open>None\<close> when \<open>X-Signature\<close> is missing.  Starlette
  decodes header octets as Latin-1, so the characters of a present value are the octets
  the client sent.
\<close>

definition verify_signature :: "config \<Rightarrow> bytes \<Rightarrow> pystr option \<Rightarrow> exn + bool" where
  "verify_signature cfg body signature =
     (case signature of
        None \<Rightarrow> Inr False
      | Some sg \<Rightarrow>
          if sg = [] then Inr False
          else (case encode (webhook_secret cfg) of
                  Inl e \<Rightarrow> Inl e
                | Inr secret \<Rightarrow> compare_digest (hexdigest (hmac_sha256 secret body)) sg))"

section \<open>storage.py\<close>

text \<open>\<open>Database.is_healthy\<close>: \<open>SELECT 1\<close> on a fresh connection, \<open>False\<close> on any exception.\<close>

definition is_healthy :: "database \<Rightarrow> bool" where
  "is_healthy db = (if available db then True else False)"

subsection \<open>\<open>insert_message\<close>\<close>

definition has_message :: "database \<Rightarrow> pystr \<Rightarrow> bool" where
  "has_message db mid = list_ex (\<lambda>r. message_id r = mid) (messages db)"

text \<open>
  \<open>Database.insert_message\<close>: \<open>INSERT OR IGNORE\<close> skips the row when the primary key
  \<open>message_id\<close> is taken (\<open>rowcount = 0\<close>), and appends it otherwise; any exception of the
  database layer is caught and reported as \<open>(False, False)\<close>.  The argument \<open>now\<close> is the
  value of \<open>datetime.now(timezone.utc).isoformat()\<close>.  The result is the new state with the
  pair \<open>(success, is_duplicate)\<close>.
\<close>

definition insert_message ::
  "database \<Rightarrow> pystr \<Rightarrow> pystr \<Rightarrow> pystr \<Rightarrow> pystr \<Rightarrow> pystr option \<Rightarrow> pystr
     \<Rightarrow> database \<times> bool \<times> bool" where
  "insert_message db mid frm to tsv txt now =
     (if \<not> available db then (db, False, False)
      else if has_message db mid then (db, True, True)
      else (db\<lparr>messages := messages db @
              [\<lparr>message_id = mid, from_msisdn = frm, to_msisdn = to, ts = tsv,
                text_col = txt, created_at = now\<rparr>]\<rparr>, True, False))"

text \<open>The row stored under a key (\<open>SELECT ... WHERE message_id = ?\<close>), to state what is kept.\<close>

definition lookup_message :: "database \<Rightarrow> pystr \<Rightarrow> message_row option" where
  "lookup_message db mid = find (\<lambda>r. message_id r = mid) (messages db)"

subsection \<open>\<open>get_messages\<close>\<close>

text \<open>
  SQLite's \<open>LIKE\<close>: \<open>%\<close> (37) matches any run of characters, \<open>_\<close> (95) any one character,
  every other character itself, where the letters \<open>A\<close> to \<open>Z\<close> and \<open>a\<close> to \<open>z\<close> match
  without regard to case and no character beyond ASCII is folded.  Both operands are read as
  NUL-terminated strings, and \<open>NULL LIKE p\<close> is \<open>NULL\<close>, which a \<open>WHERE\<close> clause does not
  accept.
\<close>

definition ascii_lower :: "nat \<Rightarrow> nat" where
  "ascii_lower c = (if 65 \<le> c \<and> c \<le> 90 then c + 32 else c)"

fun like_match :: "pystr \<Rightarrow> pystr \<Rightarrow> bool" where
  "like_match [] [] = True"
| "like_match [] (c # s) = False"
| "like_match (p # ps) [] = (p = 37 \<and> like_match ps [])"
| "like_match (p # ps) (c # s) =
     (if p = 37 then like_match ps (c # s) \<or> like_match (p # ps) s
      else (p = 95 \<or> ascii_lower p = ascii_lower c) \<and> like_match ps s)"

definition c_string :: "pystr \<Rightarrow> pystr" where
  "c_string s = takeWhile (\<lambda>c. c \<noteq> 0) s"

text \<open>
  The \<open>LIKE\<close> function first measures its pattern: one of more than 50000 bytes (the
  default \<open>SQLITE_MAX_LIKE_PATTERN_LENGTH\<close>) in UTF-8 is refused with the error "LIKE or GLOB
  pattern too complex", which \<open>sqlite3\<close> raises as \<open>OperationalError\<close>; this comes before the
  test for \<open>NULL\<close>.
\<close>

definition utf8_width :: "nat \<Rightarrow> nat" where
  "utf8_width c = (if c < 128 then 1 else if c < 2048 then 2 else if c < 65536 then 3 else 4)"

definition utf8_size :: "pystr \<Rightarrow> nat" where
  "utf8_size s = sum_list (map utf8_width s)"

definition like_pattern_limit :: nat where
  "like_pattern_limit = 50000"

definition sql_like :: "pystr option \<Rightarrow> pystr \<Rightarrow> exn + bool" where
  "sql_like v pattern =
     (if like_pattern_limit < utf8_size pattern then Inl OperationalError
      else Inr (case v of None \<Rightarrow> False | Some s \<Rightarrow> like_match (c_string pattern) (c_string s)))"

text \<open>
  The \<open>WHERE\<close> clause: one condition for each filter that is truthy in Python (neither
  \<open>None\<close> nor the empty string), joined with \<open>AND\<close>, and \<open>1=1\<close> when there is none.  For
  each row the conditions are evaluated from the left, and a row that fails one does not reach
  the next; so \<open>LIKE\<close> is called, and can fail, only on the rows that pass the conditions on
  sender and timestamp.
\<close>

definition where_clauses ::
  "pystr option \<Rightarrow> pystr option \<Rightarrow> pystr option \<Rightarrow> (message_row \<Rightarrow> exn + bool) list" where
  "where_clauses from_filter since_filter q_filter =
     (case from_filter of
        None \<Rightarrow> []
      | Some v \<Rightarrow> if v = [] then [] else [\<lambda>r. Inr (from_msisdn r = v)]) @
     (case since_filter of
        None \<Rightarrow> []
      | Some v \<Rightarrow> if v = [] then [] else [\<lambda>r. Inr (ts r \<ge> v)]) @
     (case q_filter of
        None \<Rightarrow> []
      | Some v \<Rightarrow> if v = [] then [] else [\<lambda>r. sql_like (text_col r) ([37] @ v @ [37])])"

fun where_sql :: "(message_row \<Rightarrow> exn + bool) list \<Rightarrow> message_row \<Rightarrow> exn + bool" where
  "where_sql [] r = Inr True"
| "where_sql (c # cs) r =
     (case c r of Inl e \<Rightarrow> Inl e | Inr b \<Rightarrow> if b then where_sql cs r else Inr False)"

text \<open>
  The list \<open>params\<close> that goes with the clauses.  A \<open>str\<close> is bound as \<open>TEXT\<close> in UTF-8;
  one of more than \<open>10^9\<close> bytes (the default \<open>SQLITE_MAX_LENGTH\<close>) is refused when it is
  bound, with \<open>DataError\<close>.
\<close>

definition where_params :: "pystr option \<Rightarrow> pystr option \<Rightarrow> pystr option \<Rightarrow> pystr list" where
  "where_params from_filter since_filter q_filter =
     (case from_filter of None \<Rightarrow> [] | Some v \<Rightarrow> if v = [] then [] else [v]) @
     (case since_filter of None \<Rightarrow> [] | Some v \<Rightarrow> if v = [] then [] else [v]) @
     (case q_filter of None \<Rightarrow> [] | Some v \<Rightarrow> if v = [] then [] else [[37] @ v @ [37]])"

definition sqlite_length_limit :: nat where
  "sqlite_length_limit = 1000000000"

definition sqlite_text :: "pystr \<Rightarrow> bool" where
  "sqlite_text v = (utf8_size v \<le> sqlite_length_limit)"

text \<open>The rows of a table that a condition selects; the statement fails when the
  condition fails on a row.\<close>

fun select_rows :: "(message_row \<Rightarrow> exn + bool) \<Rightarrow> message_row list \<Rightarrow> exn + message_row list" where
  "select_rows cond [] = Inr []"
| "select_rows cond (r # rs) =
     (case cond r of
        Inl e \<Rightarrow> Inl e
      | Inr b \<Rightarrow>
          (case select_rows cond rs of
             Inl e \<Rightarrow> Inl e
           | Inr selected \<Rightarrow> Inr (if b then r # selected else selected)))"

text \<open>\<open>LIMIT ? OFFSET ?\<close>: a negative limit is no limit, a negative offset is 0.\<close>

definition sql_limit_offset :: "int \<Rightarrow> int \<Rightarrow> 'a list \<Rightarrow> 'a list" where
  "sql_limit_offset limit offset rows =
     (let rest = drop (nat offset) rows in if limit < 0 then rest else take (nat limit) rest)"

text \<open>
  A Python \<open>int\<close> is bound as a 64-bit SQLite \<open>INTEGER\<close>; \<open>sqlite3\<close> raises
  \<open>OverflowError\<close> for one outside that range.
\<close>

definition sqlite_integer :: "int \<Rightarrow> bool" where
  "sqlite_integer i = (- (2 ^ 63) \<le> i \<and> i < 2 ^ 63)"

text \<open>
  \<open>Database.get_messages\<close>: the connection, then the count of the selected rows (for which
  \<open>params\<close> are bound), then the page of them under \<open>ORDER BY ts ASC, message_id ASC\<close> (for
  which \<open>limit\<close> and \<open>offset\<close> are bound as well).  There is no \<open>try\<close> here: an exception of
  the database layer leaves the method.
\<close>

definition get_messages ::
  "database \<Rightarrow> int \<Rightarrow> int \<Rightarrow> pystr option \<Rightarrow> pystr option \<Rightarrow> pystr option
     \<Rightarrow> exn + (message_row list \<times> nat)" where
  "get_messages db limit offset from_filter since_filter q_filter =
     (if \<not> available db then Inl OperationalError
      else if \<not> list_all sqlite_text (where_params from_filter since_filter q_filter)
      then Inl DataError
      else
        case select_rows (where_sql (where_clauses from_filter since_filter q_filter))
               (messages db) of
          Inl e \<Rightarrow> Inl e
        | Inr selected \<Rightarrow>
            if sqlite_integer limit \<and> sqlite_integer offset
            then Inr (sql_limit_offset limit offset
                        (sort_key (\<lambda>r. (ts r, message_id r)) selected),
                      length selected)
            else Inl OverflowError)"

subsection \<open>\<open>get_stats\<close>\<close>

record stats =
  total_messages :: nat
  senders_count :: nat
  messages_per_sender :: "(pystr \<times> nat) list"
  first_message_ts :: "pystr option"
  last_message_ts :: "pystr option"

text \<open>\<open>MIN\<close> and \<open>MAX\<close> over a column: \<open>NULL\<close> on no rows.\<close>

definition sql_min :: "pystr list \<Rightarrow> pystr option" where
  "sql_min vs = (case vs of [] \<Rightarrow> None | v # rest \<Rightarrow> Some (fold min rest v))"

definition sql_max :: "pystr list \<Rightarrow> pystr option" where
  "sql_max vs = (case vs of [] \<Rightarrow> None | v # rest \<Rightarrow> Some (fold max rest v))"

text \<open>
  \<open>GROUP BY from_msisdn\<close> with \<open>COUNT( * )\<close>, then \<open>ORDER BY count DESC LIMIT 10\<close>.  The query
  leaves the order of senders with equal counts to the engine; here the groups come in the
  order of the sender and the sort is stable.
\<close>

definition sender_groups :: "message_row list \<Rightarrow> (pystr \<times> nat) list" where
  "sender_groups rows =
     map (\<lambda>s. (s, length (filter (\<lambda>r. from_msisdn r = s) rows)))
       (sort (remdups (map from_msisdn rows)))"

definition top_senders :: "message_row list \<Rightarrow> (pystr \<times> nat) list" where
  "top_senders rows = take 10 (sort_key (\<lambda>g. - int (snd g)) (sender_groups rows))"

definition get_stats :: "database \<Rightarrow> exn + stats" where
  "get_stats db =
     (if \<not> available db then Inl OperationalError
      else Inr \<lparr>total_messages = length (messages db),
                senders_count = length (remdups (map from_msisdn (messages db))),
                messages_per_sender = top_senders (messages db),
                first_message_ts = sql_min (map ts (messages db)),
                last_message_ts = sql_max (map ts (messages db))\<rparr>)"

section \<open>config.py and main.py: the endpoints\<close>

definition is_ready :: "config \<Rightarrow> bool" where
  "is_ready cfg = (webhook_secret cfg \<noteq> [])"

datatype outcome = success | duplicate | invalid_signature | validation_error | db_error

datatype level = INFO | ERROR

text \<open>The bodies of the responses.\<close>

datatype content =
    Status_ok
  | Status_ready
  | Not_ready pystr
  | Detail pystr
  | Messages_response "message_row list" nat int int
  | Stats_response stats
  | Request_validation_errors
  | Internal_server_error

datatype response = Response (status_code: nat) (content: content)

text \<open>
  One record of \<open>log_json\<close> from \<open>webhook\<close> (the level, the status and the result; method
  and path are constant there, and the latency is a clock reading).
\<close>

record log_record =
  log_level_of :: level
  log_status :: nat
  log_result :: outcome

text \<open>
  What the process holds: the database, the counter \<open>webhook_requests_total\<close> of
  \<open>metrics.py\<close>, and the log written so far.
\<close>

record app_state =
  db :: database
  webhook_requests_total :: "outcome \<Rightarrow> nat"
  log_records :: "log_record list"

definition log_json :: "level \<Rightarrow> nat \<Rightarrow> outcome \<Rightarrow> app_state \<Rightarrow> app_state" where
  "log_json lv st res s =
     s\<lparr>log_records := log_records s @ [\<lparr>log_level_of = lv, log_status = st, log_result = res\<rparr>]\<rparr>"

definition increment_webhook_request :: "outcome \<Rightarrow> app_state \<Rightarrow> app_state" where
  "increment_webhook_request res s =
     s\<lparr>webhook_requests_total :=
         (webhook_requests_total s)(res := webhook_requests_total s res + 1)\<rparr>"

text \<open>
  A request to \<open>POST /webhook\<close>: the raw body, the header \<open>X-Signature\<close> if present, and
  \<open>body_json\<close>, the parse of the body that \<open>model_validate_json\<close> works on (\<open>None\<close> when
  the body is not JSON).
\<close>

record request =
  body :: bytes
  x_signature :: "pystr option"
  body_json :: "json option"

text \<open>
  The endpoint \<open>webhook\<close>.  It returns a response or leaves by an exception (\<open>Inl\<close>): the
  exceptions of \<open>verify_signature\<close> are not caught, and the \<open>ValidationError\<close> of the
  payload is logged, counted and raised again.  \<open>now\<close> is the clock reading that
  \<open>insert_message\<close> takes.
\<close>

definition webhook ::
  "config \<Rightarrow> pystr \<Rightarrow> request \<Rightarrow> app_state \<Rightarrow> (exn + response) \<times> app_state" where
  "webhook cfg now req s =
     (case verify_signature cfg (body req) (x_signature req) of
        Inl e \<Rightarrow> (Inl e, s)
      | Inr False \<Rightarrow>
          (Inr (Response 401 (Detail (ascii ''invalid signature''))),
           increment_webhook_request invalid_signature
             (log_json ERROR 401 invalid_signature s))
      | Inr True \<Rightarrow>
          (case model_validate_json (body_json req) of
             Inl e \<Rightarrow>
               (if e = ValidationError
                then (Inl e, increment_webhook_request validation_error
                               (log_json ERROR 422 validation_error s))
                else (Inl e, s))
           | Inr payload \<Rightarrow>
               (case insert_message (db s) (payload_message_id payload) (payload_from payload)
                       (payload_to payload) (payload_ts payload) (payload_text payload) now of
                  (db', ok, is_duplicate) \<Rightarrow>
                    if \<not> ok
                    then (Inr (Response 500 (Detail (ascii ''database error''))),
                          increment_webhook_request db_error
                            (log_json ERROR 500 db_error (s\<lparr>db := db'\<rparr>)))
                    else
                      let result = (if is_duplicate then duplicate else success)
                      in (Inr (Response 200 Status_ok),
                          increment_webhook_request result
                            (log_json INFO 200 result (s\<lparr>db := db'\<rparr>))))))"

text \<open>
  What the client receives.  FastAPI answers \<open>HTTPException\<close> and its own
  \<open>RequestValidationError\<close>; \<open>main.py\<close> registers no further handler, so every exception
  that leaves an endpoint reaches the server-error middleware, which answers 500.
\<close>

definition served :: "exn + response \<Rightarrow> response" where
  "served r = (case r of Inr resp \<Rightarrow> resp | Inl e \<Rightarrow> Response 500 Internal_server_error)"

definition post_webhook :: "config \<Rightarrow> pystr \<Rightarrow> request \<Rightarrow> app_state \<Rightarrow> response \<times> app_state" where
  "post_webhook cfg now req s = (served (fst (webhook cfg now req s)), snd (webhook cfg now req s))"

text \<open>
  \<open>GET /messages\<close>, the endpoint function \<open>get_messages\<close> of \<open>main.py\<close> (named
  \<open>messages_endpoint\<close> here, apart from the method of \<open>Database\<close>; likewise
  \<open>stats_endpoint\<close>).  \<open>limit\<close> and \<open>offset\<close> are the integers of the query string, \<open>None\<close>
  when the parameter is absent; \<open>Query(ge=1, le=100)\<close> and \<open>Query(ge=0)\<close> are checked by
  FastAPI before the endpoint function runs, and a violation is answered 422.
\<close>

definition messages_endpoint ::
  "database \<Rightarrow> int option \<Rightarrow> int option \<Rightarrow> pystr option \<Rightarrow> pystr option \<Rightarrow> pystr option
     \<Rightarrow> response" where
  "messages_endpoint d limit_param offset_param from_param since q =
     (let limit = (case limit_param of None \<Rightarrow> 50 | Some l \<Rightarrow> l);
          offset = (case offset_param of None \<Rightarrow> 0 | Some k \<Rightarrow> k)
      in if limit < 1 \<or> 100 < limit \<or> offset < 0
         then Response 422 Request_validation_errors
         else served
           (case get_messages d limit offset from_param since q of
              Inl e \<Rightarrow> Inl e
            | Inr (rows, total_count) \<Rightarrow>
                Inr (Response 200 (Messages_response rows total_count limit offset))))"

definition stats_endpoint :: "database \<Rightarrow> response" where
  "stats_endpoint d =
     served (case get_stats d of Inl e \<Rightarrow> Inl e | Inr st \<Rightarrow> Inr (Response 200 (Stats_response st)))"

definition health_live :: response where
  "health_live = Response 200 Status_ok"

definition health_ready :: "config \<Rightarrow> database \<Rightarrow> response" where
  "health_ready cfg d =
     (if \<not> is_ready cfg
      then Response 503 (Not_ready (ascii ''missing webhook secret''))
      else if \<not> is_healthy d
      then Response 503 (Not_ready (ascii ''database unavailable''))
      else Response 200 Status_ready)"

section \<open>The vocabulary of the specification\<close>

text \<open>
  The specification describes \<open>get_messages\<close> by the rows that satisfy all filters that
  are present, where a filter is present when it is given and not empty.  \<open>text_match\<close> is
  the reading of "the text contains \<open>q\<close>".
\<close>

definition satisfies_filters ::
  "(pystr \<Rightarrow> pystr option \<Rightarrow> bool) \<Rightarrow> pystr option \<Rightarrow> pystr option \<Rightarrow> pystr option
     \<Rightarrow> message_row \<Rightarrow> bool" where
  "satisfies_filters text_match from_filter since_filter q_filter r =
     ((case from_filter of None \<Rightarrow> True | Some v \<Rightarrow> v = [] \<or> from_msisdn r = v) \<and>
      (case since_filter of None \<Rightarrow> True | Some v \<Rightarrow> v = [] \<or> v \<le> ts r) \<and>
      (case q_filter of None \<Rightarrow> True | Some v \<Rightarrow> v = [] \<or> text_match v (text_col r)))"

text \<open>
  A substring match without regard to case, for a given lower-casing of characters; a
  text that is \<open>NULL\<close> contains nothing.
\<close>

definition contains_ci :: "(nat \<Rightarrow> nat) \<Rightarrow> pystr \<Rightarrow> pystr option \<Rightarrow> bool" where
  "contains_ci lower q t =
     (case t of None \<Rightarrow> False | Some u \<Rightarrow> sublist (map lower q) (map lower u))"

text \<open>
  The case-insensitive match as the tests of the repository read it
  (\<open>q.lower() in text.lower()\<close>); \<open>str.lower\<close> is given on the code points below 256,
  where it maps one character to one character, and left as the identity elsewhere.
\<close>

definition latin1_lower :: "nat \<Rightarrow> nat" where
  "latin1_lower c = (if (65 \<le> c \<and> c \<le> 90) \<or> (192 \<le> c \<and> c \<le> 222 \<and> c \<noteq> 215) then c + 32 else c)"

definition text_contains_claimed :: "pystr \<Rightarrow> pystr option \<Rightarrow> bool" where
  "text_contains_claimed q t = contains_ci latin1_lower q t"

text \<open>
  The match that \<open>LIKE\<close> computes for a \<open>q\<close> without \<open>%\<close>, \<open>_\<close> and NUL: only ASCII letters
  are folded, and the text counts up to its first NUL.
\<close>

definition text_contains_ascii :: "pystr \<Rightarrow> pystr option \<Rightarrow> bool" where
  "text_contains_ascii q t = contains_ci ascii_lower q (map_option c_string t)"

definition page_key :: "message_row \<Rightarrow> pystr \<times> pystr" where
  "page_key r = (ts r, message_id r)"

text \<open>A \<open>q_filter\<close> in which no character is special for \<open>LIKE\<close>.\<close>

definition plain_query :: "pystr option \<Rightarrow> bool" where
  "plain_query q_filter =
     (case q_filter of None \<Rightarrow> True | Some v \<Rightarrow> list_all (\<lambda>c. c \<noteq> 37 \<and> c \<noteq> 95 \<and> c \<noteq> 0) v)"

text \<open>
  Filters within the lengths that SQLite takes: a sender and a timestamp of at most \<open>10^9\<close>
  bytes in UTF-8, and a \<open>q\<close> whose pattern \<open>%q%\<close> has at most 50000.
\<close>

definition filters_fit :: "pystr option \<Rightarrow> pystr option \<Rightarrow> pystr option \<Rightarrow> bool" where
  "filters_fit from_filter since_filter q_filter =
     ((case from_filter of None \<Rightarrow> True | Some v \<Rightarrow> utf8_size v \<le> sqlite_length_limit) \<and>
      (case since_filter of None \<Rightarrow> True | Some v \<Rightarrow> utf8_size v \<le> sqlite_length_limit) \<and>
      (case q_filter of None \<Rightarrow> True | Some v \<Rightarrow> utf8_size v + 2 \<le> like_pattern_limit))"

section \<open>Example states and requests\<close>

definition empty_db :: database where
  "empty_db = \<lparr>available = True, messages = []\<rparr>"

definition offline_db :: database where
  "offline_db = \<lparr>available = False, messages = []\<rparr>"

definition db_one :: database where
  "db_one = fst (insert_message empty_db (ascii ''m1'')
     (ascii ''+111'') (ascii ''+999'') (ascii ''2024-01-15T10:00:00Z'') (Some (ascii ''first''))
     (ascii ''2024-01-15T10:00:01.000000+00:00''))"

definition test_config :: config where
  "test_config =
     \<lparr>webhook_secret = ascii ''testsecret'', database_url = ascii ''messages.db'',
      log_level = ascii ''INFO''\<rparr>"

definition row_a :: message_row where
  "row_a =
     \<lparr>message_id = ascii ''a'', from_msisdn = ascii ''+111'', to_msisdn = ascii ''+999'',
      ts = ascii ''2024-01-15T14:00:00Z'', text_col = None, created_at = ascii ''t2''\<rparr>"

definition row_b :: message_row where
  "row_b =
     \<lparr>message_id = ascii ''b'', from_msisdn = ascii ''+222'', to_msisdn = ascii ''+999'',
      ts = ascii ''2024-01-15T14:00:00Z'', text_col = Some (ascii ''Hello World''),
      created_at = ascii ''t1''\<rparr>"

definition row_c :: message_row where
  "row_c =
     \<lparr>message_id = ascii ''c'', from_msisdn = ascii ''+111'', to_msisdn = ascii ''+999'',
      ts = ascii ''2024-01-15T09:00:00Z'', text_col = Some (ascii ''Goodbye''),
      created_at = ascii ''t3''\<rparr>"

definition db_three :: database where
  "db_three = \<lparr>available = True, messages = [row_b, row_a, row_c]\<rparr>"

definition row_with_text :: "pystr \<Rightarrow> message_row" where
  "row_with_text t =
     \<lparr>message_id = ascii ''m1'', from_msisdn = ascii ''+111'', to_msisdn = ascii ''+999'',
      ts = ascii ''2024-01-15T10:00:00Z'', text_col = Some t, created_at = ascii ''t1''\<rparr>"

definition db_with_text :: "pystr \<Rightarrow> database" where
  "db_with_text t = \<lparr>available = True, messages = [row_with_text t]\<rparr>"

definition test_key :: bytes where
  "test_key = ascii_bytes ''testsecret''"

definition empty_object_body :: bytes where
  "empty_object_body = ascii_bytes ''{}''"

definition valid_signature :: "bytes \<Rightarrow> pystr" where
  "valid_signature msg = hexdigest (hmac_sha256 test_key msg)"

text \<open>
  The members of the body
  \<^verbatim>\<open>{"message_id": "m1", "from": <sender>, "to": "+2", "ts": <timestamp>}\<close>.
\<close>

definition payload_members :: "pystr \<Rightarrow> pystr \<Rightarrow> (pystr \<times> json) list" where
  "payload_members sender timestamp =
     [(ascii ''message_id'', JString (ascii ''m1'')), (ascii ''from'', JString sender),
      (ascii ''to'', JString (ascii ''+2'')), (ascii ''ts'', JString timestamp)]"

definition initial_state :: app_state where
  "initial_state = \<lparr>db = empty_db, webhook_requests_total = (\<lambda>_. 0), log_records = []\<rparr>"

text \<open>A request whose \<open>X-Signature\<close> is the single octet \<open>0xE9\<close>.\<close>

definition latin1_signature_request :: request where
  "latin1_signature_request =
     \<lparr>body = empty_object_body, x_signature = Some [233], body_json = Some (JObject [])\<rparr>"

text \<open>A correctly signed request with the body \<^verbatim>\<open>{}\<close>.\<close>

definition signed_empty_object_request :: request where
  "signed_empty_object_request =
     \<lparr>body = empty_object_body, x_signature = Some (valid_signature empty_object_body),
      body_json = Some (JObject [])\<rparr>"

text \<open>
  A \<open>q\<close> of 49999 letters \<open>a\<close>, a filter of \<open>10^9 + 1\<close> letters \<open>a\<close>, and the least offset
  that is no 64-bit integer.
\<close>

definition huge_filter :: pystr where
  "huge_filter = replicate 1000000001 97"

definition long_query :: pystr where
  "long_query = replicate 49999 97"

definition big_offset :: int where
  "big_offset = 2 ^ 63"

section \<open>Idempotent insert\<close>

lemma has_message_iff: "has_message d mid \<longleftrightarrow> mid \<in> message_id ` set (messages d)"
  by (auto simp: has_message_def list_ex_iff)


lemma insert_message_unavailable:
  "\<not> available d \<Longrightarrow> insert_message d mid frm to tsv txt now = (d, False, False)"
  by (simp add: insert_message_def)

lemma find_append_None:
  "find P xs = None \<Longrightarrow> find P (xs @ ys) = find P ys"
  by (induction xs) (auto split: if_splits)

lemma insert_message_fresh_lookup:
  assumes "available d" and "\<not> has_message d mid"
  shows "lookup_message (fst (insert_message d mid frm to tsv txt now)) mid =
           Some \<lparr>message_id = mid, from_msisdn = frm, to_msisdn = to, ts = tsv,
                 text_col = txt, created_at = now\<rparr>"
proof -
  have "find (\<lambda>r. message_id r = mid) (messages d) = None"
    using assms(2) by (auto simp: has_message_def list_ex_iff find_None_iff)
  then show ?thesis
    using assms by (simp add: insert_message_def lookup_message_def find_append_None)
qed

text \<open>The primary key stays unique under \<open>insert_message\<close>.\<close>

lemma insert_message_distinct:
  assumes "distinct (map message_id (messages d))"
  shows "distinct (map message_id (messages (fst (insert_message d mid frm to tsv txt now))))"
  using assms by (auto simp: insert_message_def has_message_iff)



section \<open>Readiness\<close>

text \<open>
  C9.  \<open>GET /health/ready\<close> answers 200 with \<open>{"status": "ready"}\<close> exactly when the secret
  is non-empty and the health check of the store passes; every other answer is 503 with a
  reason; and with an empty secret the answer is 503 with the reason "missing webhook
  secret" whatever the store is, the health check not being reached.
\<close>

theorem health_ready_iff:
  "(health_ready cfg d = Response 200 Status_ready \<longleftrightarrow> webhook_secret cfg \<noteq> [] \<and> is_healthy d) \<and>
   (status_code (health_ready cfg d) = 200 \<longleftrightarrow> webhook_secret cfg \<noteq> [] \<and> is_healthy d) \<and>
   (status_code (health_ready cfg d) = 200 \<or>
      status_code (health_ready cfg d) = 503 \<and>
      (\<exists>reason. content (health_ready cfg d) = Not_ready reason)) \<and>
   health_ready (cfg\<lparr>webhook_secret := []\<rparr>) d =
      Response 503 (Not_ready (ascii ''missing webhook secret''))"
  by (simp add: health_ready_def is_ready_def)

theorem health_ready_iff_witness:
  "health_ready test_config empty_db = Response 200 Status_ready \<and>
   health_ready test_config offline_db =
     Response 503 (Not_ready (ascii ''database unavailable'')) \<and>
   health_ready (test_config\<lparr>webhook_secret := []\<rparr>) empty_db =
     Response 503 (Not_ready (ascii ''missing webhook secret'')) \<and>
   health_ready (test_config\<lparr>webhook_secret := []\<rparr>) offline_db =
     Response 503 (Not_ready (ascii ''missing webhook secret''))"
proof -
  have s: "webhook_secret test_config \<noteq> []"
    by (simp add: test_config_def ascii_def)
  have "health_ready test_config empty_db = Response 200 Status_ready"
    using s health_ready_iff [of test_config empty_db] by (simp add: is_healthy_def empty_db_def)
  moreover have "health_ready test_config offline_db =
     Response 503 (Not_ready (ascii ''database unavailable''))"
    using s by (simp add: health_ready_def is_ready_def is_healthy_def offline_db_def)
  ultimately show ?thesis
    using health_ready_iff [of test_config empty_db] health_ready_iff [of test_config offline_db]
    by simp
qed

section \<open>Reading messages\<close>

text \<open>
  C10.  An empty string as \<open>from_filter\<close>, \<open>since_filter\<close> or \<open>q_filter\<close> gives the result
  of leaving that filter out, for every database, limit, offset and choice of the other
  filters: no condition on the sender, the timestamp or the text is added for it.
\<close>

theorem get_messages_empty_filter_absent:
  "get_messages d limit offset (Some []) since_filter q_filter =
     get_messages d limit offset None since_filter q_filter \<and>
   get_messages d limit offset from_filter (Some []) q_filter =
     get_messages d limit offset from_filter None q_filter \<and>
   get_messages d limit offset from_filter since_filter (Some []) =
     get_messages d limit offset from_filter since_filter None"
  by (simp add: get_messages_def where_clauses_def where_params_def)

text \<open>
  With \<open>q_filter = ""\<close> a row whose text is \<open>NULL\<close> is returned, and with
  \<open>from_filter = ""\<close> a row whose sender is not empty is returned.
\<close>

lemma get_messages_empty_filter_example:
  "get_messages
     \<lparr>available = True,
      messages = [\<lparr>message_id = ascii ''m'', from_msisdn = ascii ''+1'', to_msisdn = ascii ''+2'',
                   ts = ascii ''2024-01-15T10:00:00Z'', text_col = None, created_at = []\<rparr>]\<rparr>
     50 0 (Some []) None (Some []) =
   Inr ([\<lparr>message_id = ascii ''m'', from_msisdn = ascii ''+1'', to_msisdn = ascii ''+2'',
           ts = ascii ''2024-01-15T10:00:00Z'', text_col = None, created_at = []\<rparr>], 1)"
  by (simp add: get_messages_def where_clauses_def where_params_def sql_limit_offset_def
      sqlite_integer_def)

section \<open>Statistics\<close>

lemma sql_min_Min: "vs \<noteq> [] \<Longrightarrow> sql_min vs = Some (Min (set vs))"
  by (cases vs) (simp_all add: sql_min_def Min.set_eq_fold [symmetric] del: set_simps)

lemma sql_max_Max: "vs \<noteq> [] \<Longrightarrow> sql_max vs = Some (Max (set vs))"
  by (cases vs) (simp_all add: sql_max_def Max.set_eq_fold [symmetric] del: set_simps)

lemma sender_groups_set:
  "set (sender_groups rows) =
     (\<lambda>s. (s, length (filter (\<lambda>r. from_msisdn r = s) rows))) ` from_msisdn ` set rows"
  by (auto simp: sender_groups_def)

lemma sender_groups_distinct: "distinct (map fst (sender_groups rows))"
proof -
  have "map fst (sender_groups rows) = sort (remdups (map from_msisdn rows))"
    by (simp add: sender_groups_def comp_def)
  then show ?thesis by simp
qed

lemma sort_key_count_desc:
  "sorted_wrt (\<lambda>g h. snd h \<le> snd g) (sort_key (\<lambda>g. - int (snd g)) (gs :: (pystr \<times> nat) list))"
proof -
  have "sorted (map (\<lambda>g. - int (snd g)) (sort_key (\<lambda>g. - int (snd g)) gs))"
    by (rule sorted_sort_key)
  then have "sorted_wrt (\<lambda>g h. - int (snd g) \<le> - int (snd h)) (sort_key (\<lambda>g. - int (snd g)) gs)"
    by (simp add: sorted_map)
  then show ?thesis
    by (rule sorted_wrt_mono_rel [rotated]) simp
qed

lemma top_senders_sorted: "sorted_wrt (\<lambda>g h. snd h \<le> snd g) (top_senders rows)"
proof -
  let ?xs = "sort_key (\<lambda>g. - int (snd g)) (sender_groups rows)"
  have "sorted_wrt (\<lambda>g h. snd h \<le> snd g) (take 10 ?xs @ drop 10 ?xs)"
    using sort_key_count_desc [of "sender_groups rows"] by simp
  then show ?thesis
    unfolding top_senders_def sorted_wrt_append by blast
qed

lemma top_senders_subset: "set (top_senders rows) \<subseteq> set (sender_groups rows)"
proof -
  have "set (take 10 (sort_key (\<lambda>g. - int (snd g)) (sender_groups rows)))
          \<subseteq> set (sort_key (\<lambda>g. - int (snd g)) (sender_groups rows))"
    by (rule set_take_subset)
  then show ?thesis by (simp add: top_senders_def)
qed

lemma top_senders_distinct: "distinct (map fst (top_senders rows))"
proof -
  have "mset (map fst (sort_key (\<lambda>g. - int (snd g)) (sender_groups rows))) =
          mset (map fst (sender_groups rows))"
    by simp
  then have "distinct (map fst (sort_key (\<lambda>g. - int (snd g)) (sender_groups rows)))"
    using sender_groups_distinct [of rows] by (metis mset_eq_imp_distinct_iff)
  then show ?thesis
    by (simp add: top_senders_def take_map [symmetric] distinct_take)
qed

text \<open>Every group that is left out counts no more than each group that is listed.\<close>

lemma top_senders_top:
  assumes "g \<in> set (top_senders rows)" and "h \<in> set (sender_groups rows)"
    and "h \<notin> set (top_senders rows)"
  shows "snd h \<le> snd g"
proof -
  let ?xs = "sort_key (\<lambda>g. - int (snd g)) (sender_groups rows)"
  have s: "sorted_wrt (\<lambda>g h. snd h \<le> snd g) (take 10 ?xs @ drop 10 ?xs)"
    using sort_key_count_desc [of "sender_groups rows"] by simp
  have "h \<in> set (take 10 ?xs @ drop 10 ?xs)"
    using assms(2) by simp
  then have "h \<in> set (drop 10 ?xs)"
    using assms(3) unfolding top_senders_def set_append by blast
  moreover have "g \<in> set (take 10 ?xs)"
    using assms(1) by (simp add: top_senders_def)
  ultimately show ?thesis
    using s unfolding sorted_wrt_append by blast
qed

text \<open>
  C7.  On a reachable store \<open>get_stats\<close> returns a snapshot in which: the total is the
  number of rows and \<open>senders_count\<close> the number of distinct senders; with no rows both are
  zero and both timestamps are absent; with at least one row \<open>first_message_ts\<close> is the
  least and \<open>last_message_ts\<close> the greatest \<open>ts\<close> in the lexicographic order, so the first
  is at most the last; \<open>messages_per_sender\<close> has at most ten entries, in descending order
  of count, one for each listed sender with the number of that sender's rows, and no
  sender left out has more rows than a listed one.
\<close>

theorem get_stats_snapshot:
  assumes "available d"
  shows "\<exists>st. get_stats d = Inr st \<and>
    total_messages st = length (messages d) \<and>
    senders_count st = card (from_msisdn ` set (messages d)) \<and>
    (messages d = [] \<longrightarrow>
       total_messages st = 0 \<and> senders_count st = 0 \<and> messages_per_sender st = [] \<and>
       first_message_ts st = None \<and> last_message_ts st = None) \<and>
    (messages d \<noteq> [] \<longrightarrow>
       first_message_ts st = Some (Min (ts ` set (messages d))) \<and>
       last_message_ts st = Some (Max (ts ` set (messages d))) \<and>
       Min (ts ` set (messages d)) \<le> Max (ts ` set (messages d))) \<and>
    length (messages_per_sender st) \<le> 10 \<and>
    sorted_wrt (\<lambda>g h. snd h \<le> snd g) (messages_per_sender st) \<and>
    distinct (map fst (messages_per_sender st)) \<and>
    (\<forall>g \<in> set (messages_per_sender st).
       fst g \<in> from_msisdn ` set (messages d) \<and>
       snd g = length (filter (\<lambda>r. from_msisdn r = fst g) (messages d)) \<and>
       (\<forall>s \<in> from_msisdn ` set (messages d).
          s \<notin> fst ` set (messages_per_sender st) \<longrightarrow>
          length (filter (\<lambda>r. from_msisdn r = s) (messages d)) \<le> snd g))"
proof -
  let ?rows = "messages d"
  let ?st = "\<lparr>total_messages = length ?rows,
              senders_count = card (from_msisdn ` set ?rows),
              messages_per_sender = top_senders ?rows,
              first_message_ts = sql_min (map ts ?rows),
              last_message_ts = sql_max (map ts ?rows)\<rparr>"
  have c: "length (remdups (map from_msisdn ?rows)) = card (from_msisdn ` set ?rows)"
    by (simp add: length_remdups_card_conv)
  have g: "get_stats d = Inr ?st"
    using assms by (simp add: get_stats_def c)
  have e: "?rows = [] \<longrightarrow> top_senders ?rows = [] \<and> sql_min (map ts ?rows) = None \<and>
             sql_max (map ts ?rows) = None"
    by (simp add: top_senders_def sender_groups_def sql_min_def sql_max_def)
  have m: "?rows \<noteq> [] \<longrightarrow>
       sql_min (map ts ?rows) = Some (Min (ts ` set ?rows)) \<and>
       sql_max (map ts ?rows) = Some (Max (ts ` set ?rows)) \<and>
       Min (ts ` set ?rows) \<le> Max (ts ` set ?rows)"
    using sql_min_Min [of "map ts ?rows"] sql_max_Max [of "map ts ?rows"]
    by (auto intro!: Min_le)
  have l: "length (top_senders ?rows) \<le> 10"
    by (simp add: top_senders_def)
  have p: "\<forall>g \<in> set (top_senders ?rows).
       fst g \<in> from_msisdn ` set ?rows \<and>
       snd g = length (filter (\<lambda>r. from_msisdn r = fst g) ?rows) \<and>
       (\<forall>s \<in> from_msisdn ` set ?rows.
          s \<notin> fst ` set (top_senders ?rows) \<longrightarrow>
          length (filter (\<lambda>r. from_msisdn r = s) ?rows) \<le> snd g)"
  proof (intro ballI conjI impI)
    fix g assume g: "g \<in> set (top_senders ?rows)"
    then have gg: "g \<in> set (sender_groups ?rows)"
      using top_senders_subset by blast
    then show "fst g \<in> from_msisdn ` set ?rows"
      and "snd g = length (filter (\<lambda>r. from_msisdn r = fst g) ?rows)"
      by (auto simp: sender_groups_set)
    fix s assume s: "s \<in> from_msisdn ` set ?rows" and n: "s \<notin> fst ` set (top_senders ?rows)"
    let ?h = "(s, length (filter (\<lambda>r. from_msisdn r = s) ?rows))"
    have "?h \<in> set (sender_groups ?rows)"
      using s by (auto simp: sender_groups_set)
    moreover have "?h \<notin> set (top_senders ?rows)"
      using n by force
    ultimately have "snd ?h \<le> snd g"
      using g top_senders_top by blast
    then show "length (filter (\<lambda>r. from_msisdn r = s) ?rows) \<le> snd g"
      by simp
  qed
  have e': "?rows = [] \<longrightarrow> length ?rows = 0 \<and> card (from_msisdn ` set ?rows) = 0"
    by simp
  show ?thesis
    by (intro exI [of _ ?st], simp only: stats.select_convs)
      (use g e e' m l p top_senders_sorted [of ?rows] top_senders_distinct [of ?rows] in blast)
qed

theorem get_stats_snapshot_witness:
  "available db_three \<and>
   (\<exists>st. get_stats db_three = Inr st \<and>
      total_messages st = 3 \<and> senders_count st = 2 \<and>
      messages_per_sender st = [(ascii ''+111'', 2), (ascii ''+222'', 1)] \<and>
      first_message_ts st = Some (ascii ''2024-01-15T09:00:00Z'') \<and>
      last_message_ts st = Some (ascii ''2024-01-15T14:00:00Z'') \<and>
      sorted_wrt (\<lambda>g h. snd h \<le> snd g) (messages_per_sender st)) \<and>
   (\<exists>st. get_stats empty_db = Inr st \<and>
      total_messages st = 0 \<and> senders_count st = 0 \<and>
      first_message_ts st = None \<and> last_message_ts st = None)"
proof -
  have a: "available db_three"
    by (simp add: db_three_def)
  have b: "available empty_db" "messages empty_db = []"
    by (simp_all add: empty_db_def)
  obtain st where st: "get_stats db_three = Inr st"
    and sorted: "sorted_wrt (\<lambda>g h. snd h \<le> snd g) (messages_per_sender st)"
    using get_stats_snapshot [OF a] by blast
  have "get_stats db_three =
      Inr \<lparr>total_messages = 3, senders_count = 2,
           messages_per_sender = [(ascii ''+111'', 2), (ascii ''+222'', 1)],
           first_message_ts = Some (ascii ''2024-01-15T09:00:00Z''),
           last_message_ts = Some (ascii ''2024-01-15T14:00:00Z'')\<rparr>"
    by (simp add: get_stats_def db_three_def row_a_def row_b_def row_c_def top_senders_def
        sender_groups_def sql_min_def sql_max_def ascii_def min_def max_def)
  with st sorted have first: "\<exists>st. get_stats db_three = Inr st \<and>
      total_messages st = 3 \<and> senders_count st = 2 \<and>
      messages_per_sender st = [(ascii ''+111'', 2), (ascii ''+222'', 1)] \<and>
      first_message_ts st = Some (ascii ''2024-01-15T09:00:00Z'') \<and>
      last_message_ts st = Some (ascii ''2024-01-15T14:00:00Z'') \<and>
      sorted_wrt (\<lambda>g h. snd h \<le> snd g) (messages_per_sender st)"
    by auto
  have second: "\<exists>st. get_stats empty_db = Inr st \<and>
      total_messages st = 0 \<and> senders_count st = 0 \<and>
      first_message_ts st = None \<and> last_message_ts st = None"
    using get_stats_snapshot [OF b(1)] b(2) by auto
  show ?thesis
    using a first second by blast
qed

section \<open>The \<open>LIKE\<close> pattern of \<open>q_filter\<close>\<close>

lemma like_match_percent: "like_match [37] s"
  by (induction s) simp_all

lemma like_match_skip:
  "like_match (37 # ps) s \<longleftrightarrow> (\<exists>u v. s = u @ v \<and> like_match ps v)"
proof (induction s)
  case Nil
  then show ?case by simp
next
  case (Cons c s)
  show ?case
  proof
    assume "like_match (37 # ps) (c # s)"
    then consider "like_match ps (c # s)" | "like_match (37 # ps) s"
      by auto
    then show "\<exists>u v. c # s = u @ v \<and> like_match ps v"
    proof cases
      case 1
      then have "c # s = [] @ (c # s) \<and> like_match ps (c # s)" by simp
      then show ?thesis by blast
    next
      case 2
      then obtain u v where "s = u @ v" "like_match ps v"
        using Cons.IH by blast
      then have "c # s = (c # u) @ v \<and> like_match ps v" by simp
      then show ?thesis by blast
    qed
  next
    assume "\<exists>u v. c # s = u @ v \<and> like_match ps v"
    then obtain u v where uv: "c # s = u @ v" "like_match ps v" by blast
    show "like_match (37 # ps) (c # s)"
    proof (cases u)
      case Nil
      then have "like_match ps (c # s)" using uv by simp
      then show ?thesis by simp
    next
      case (Cons a u')
      then have "s = u' @ v" using uv by simp
      then have "like_match (37 # ps) s"
        using Cons.IH uv(2) by blast
      then show ?thesis by simp
    qed
  qed
qed

lemma like_match_literal:
  assumes "37 \<notin> set q" and "95 \<notin> set q"
  shows "like_match (q @ ps) s \<longleftrightarrow>
     (\<exists>w v. s = w @ v \<and> map ascii_lower w = map ascii_lower q \<and> like_match ps v)"
  using assms
proof (induction q arbitrary: s)
  case Nil
  then show ?case by simp
next
  case (Cons p q)
  then have p: "p \<noteq> 37" "p \<noteq> 95" and q: "37 \<notin> set q" "95 \<notin> set q"
    by auto
  show ?case
  proof (cases s)
    case Nil
    then show ?thesis using p by simp
  next
    case (Cons c t)
    have "like_match ((p # q) @ ps) s \<longleftrightarrow>
            ascii_lower p = ascii_lower c \<and> like_match (q @ ps) t"
      using p Cons by simp
    also have "\<dots> \<longleftrightarrow> ascii_lower p = ascii_lower c \<and>
        (\<exists>w v. t = w @ v \<and> map ascii_lower w = map ascii_lower q \<and> like_match ps v)"
      using Cons.IH [OF q] by simp
    also have "\<dots> \<longleftrightarrow>
        (\<exists>w v. s = w @ v \<and> map ascii_lower w = map ascii_lower (p # q) \<and> like_match ps v)"
    proof
      assume "ascii_lower p = ascii_lower c \<and>
        (\<exists>w v. t = w @ v \<and> map ascii_lower w = map ascii_lower q \<and> like_match ps v)"
      then obtain w v where "ascii_lower p = ascii_lower c" "t = w @ v"
        "map ascii_lower w = map ascii_lower q" "like_match ps v" by blast
      then have "s = (c # w) @ v \<and> map ascii_lower (c # w) = map ascii_lower (p # q) \<and>
                 like_match ps v"
        using Cons by simp
      then show "\<exists>w v. s = w @ v \<and> map ascii_lower w = map ascii_lower (p # q) \<and>
                   like_match ps v"
        by blast
    next
      assume "\<exists>w v. s = w @ v \<and> map ascii_lower w = map ascii_lower (p # q) \<and>
                like_match ps v"
      then obtain w v where wv: "s = w @ v" "map ascii_lower w = map ascii_lower (p # q)"
        "like_match ps v" by blast
      then obtain a w' where w: "w = a # w'"
        by (cases w) auto
      then show "ascii_lower p = ascii_lower c \<and>
        (\<exists>w v. t = w @ v \<and> map ascii_lower w = map ascii_lower q \<and> like_match ps v)"
        using wv Cons by auto
    qed
    finally show ?thesis .
  qed
qed

lemma sublist_map_iff:
  "sublist (map f q) (map f s) \<longleftrightarrow> (\<exists>u w v. s = u @ w @ v \<and> map f w = map f q)"
proof
  assume "sublist (map f q) (map f s)"
  then obtain ps ss where "map f s = ps @ map f q @ ss"
    by (auto simp: sublist_def)
  then obtain u r where ur: "s = u @ r" "map f r = map f q @ ss"
    by (metis map_eq_append_conv)
  then obtain w v where "r = w @ v" "map f w = map f q"
    by (metis map_eq_append_conv)
  with ur show "\<exists>u w v. s = u @ w @ v \<and> map f w = map f q" by blast
next
  assume "\<exists>u w v. s = u @ w @ v \<and> map f w = map f q"
  then obtain u w v where "s = u @ w @ v" "map f w = map f q" by blast
  then have "map f s = map f u @ map f q @ map f v" by simp
  then show "sublist (map f q) (map f s)"
    unfolding sublist_def by blast
qed

text \<open>
  For a \<open>q\<close> without wildcards, \<open>LIKE '%q%'\<close> is the substring match that folds the ASCII
  letters.
\<close>

lemma like_match_contains:
  assumes "37 \<notin> set q" and "95 \<notin> set q"
  shows "like_match ([37] @ q @ [37]) s \<longleftrightarrow> sublist (map ascii_lower q) (map ascii_lower s)"
proof -
  have "like_match ([37] @ q @ [37]) s \<longleftrightarrow> (\<exists>u r. s = u @ r \<and> like_match (q @ [37]) r)"
    using like_match_skip [of "q @ [37]" s] by simp
  also have "\<dots> \<longleftrightarrow> (\<exists>u w v. s = u @ w @ v \<and> map ascii_lower w = map ascii_lower q)"
    using like_match_literal [OF assms, of "[37]"] like_match_percent by auto
  finally show ?thesis
    by (simp add: sublist_map_iff)
qed

lemma c_string_id: "0 \<notin> set s \<Longrightarrow> c_string s = s"
  by (induction s) (auto simp: c_string_def)

lemma utf8_size_append: "utf8_size (u @ v) = utf8_size u + utf8_size v"
  by (simp add: utf8_size_def)

lemma utf8_size_pattern: "utf8_size ([37] @ q @ [37]) = utf8_size q + 2"
  by (simp add: utf8_size_def utf8_width_def)

text \<open>\<open>utf8_size\<close> is the length of the UTF-8 encoding.\<close>

lemma utf8_char_length: "utf8_char c = Some bs \<Longrightarrow> length bs = utf8_width c"
  by (auto simp: utf8_char_def utf8_width_def split: if_splits)

lemma encode_length: "encode s = Inr bs \<Longrightarrow> length bs = utf8_size s"
proof (induction s arbitrary: bs)
  case Nil
  then show ?case by (simp add: utf8_size_def)
next
  case (Cons c s)
  then obtain b rest where "utf8_char c = Some b" "encode s = Inr rest" "bs = b @ rest"
    by (auto split: option.splits sum.splits)
  then show ?case
    using Cons.IH [of rest] utf8_char_length [of c b] by (simp add: utf8_size_def)
qed

lemma sql_like_contains:
  assumes "37 \<notin> set q" and "95 \<notin> set q" and "0 \<notin> set q"
    and "utf8_size q + 2 \<le> like_pattern_limit"
  shows "sql_like t ([37] @ q @ [37]) = Inr (text_contains_ascii q t)"
proof -
  have fits: "\<not> like_pattern_limit < utf8_size ([37] @ q @ [37])"
    using assms(4) unfolding utf8_size_pattern by simp
  show ?thesis
  proof (cases t)
    case None
    then show ?thesis
      using fits by (simp add: sql_like_def text_contains_ascii_def contains_ci_def)
  next
    case (Some u)
    have "c_string ([37] @ q @ [37]) = [37] @ q @ [37]"
      using assms(3) by (intro c_string_id) simp
    then show ?thesis
      using Some fits like_match_contains [OF assms(1,2), of "c_string u"]
      by (simp add: sql_like_def text_contains_ascii_def contains_ci_def)
  qed
qed

lemma sql_like_too_long:
  "like_pattern_limit < utf8_size q + 2 \<Longrightarrow> sql_like t ([37] @ q @ [37]) = Inl OperationalError"
  unfolding sql_like_def utf8_size_pattern by simp

section \<open>Pages of messages\<close>

lemma where_params_fit:
  assumes "filters_fit from_filter since_filter q_filter"
  shows "list_all sqlite_text (where_params from_filter since_filter q_filter)"
proof -
  have "sqlite_text ([37] @ v @ [37])" if "q_filter = Some v" for v
  proof -
    have "utf8_size v + 2 \<le> like_pattern_limit"
      using assms that by (simp add: filters_fit_def)
    then show ?thesis
      unfolding sqlite_text_def utf8_size_pattern
      by (simp add: like_pattern_limit_def sqlite_length_limit_def)
  qed
  then show ?thesis
    using assms
    by (auto simp: where_params_def filters_fit_def sqlite_text_def split: option.splits)
qed

lemma where_sql_satisfies:
  assumes "plain_query q_filter" and "filters_fit from_filter since_filter q_filter"
  shows "where_sql (where_clauses from_filter since_filter q_filter) r =
         Inr (satisfies_filters text_contains_ascii from_filter since_filter q_filter r)"
proof -
  have q: "sql_like (text_col r) ([37] @ v @ [37]) = Inr (text_contains_ascii v (text_col r))"
    if "q_filter = Some v" for v
  proof -
    have "37 \<notin> set v" "95 \<notin> set v" "0 \<notin> set v"
      using assms(1) that by (auto simp: plain_query_def list_all_iff)
    moreover have "utf8_size v + 2 \<le> like_pattern_limit"
      using assms(2) that by (simp add: filters_fit_def)
    ultimately show ?thesis by (rule sql_like_contains)
  qed
  show ?thesis
  proof (cases q_filter)
    case None
    then show ?thesis
      by (auto simp: where_clauses_def satisfies_filters_def split: option.splits)
  next
    case (Some v)
    then show ?thesis
      using q [OF Some]
      by (auto simp: where_clauses_def satisfies_filters_def split: option.splits)
  qed
qed

lemma select_rows_filter:
  assumes "\<And>r. cond r = Inr (P r)"
  shows "select_rows cond rows = Inr (filter P rows)"
  by (induction rows) (simp_all add: assms)

lemma page_key_distinct:
  assumes "distinct (map message_id rows)"
  shows "distinct (map page_key (filter P rows))"
proof -
  have "inj_on message_id (set rows)" and "distinct rows"
    using assms by (simp_all add: distinct_map)
  then have "inj_on page_key (set (filter P rows))"
    by (auto simp: inj_on_def page_key_def)
  moreover have "distinct (filter P rows)"
    using \<open>distinct rows\<close> by simp
  ultimately show ?thesis
    by (simp add: distinct_map)
qed

text \<open>
  C6 (amended).  On a reachable store, for \<open>1 \<le> limit \<le> 100\<close>, \<open>0 \<le> offset < 2^63\<close> and a
  \<open>q_filter\<close> without \<open>%\<close>, \<open>_\<close> and NUL, all filters being within the lengths that SQLite
  takes (\<open>from_filter\<close> and \<open>since_filter\<close> at most \<open>10^9\<close> bytes in UTF-8, \<open>q_filter\<close> at
  most 49998), \<open>get_messages\<close> returns \<open>(rows, total)\<close> where \<open>total\<close> is the number of rows that satisfy all present
  filters (sender equal to \<open>from_filter\<close>, \<open>ts \<ge> since_filter\<close> in the lexicographic order,
  text containing \<open>q_filter\<close> up to the case of ASCII letters), whatever limit and offset
  are, and \<open>rows\<close> is the slice at the positions \<open>offset, \<dots>, offset + limit - 1\<close> of those
  rows in ascending order of \<open>(ts, message_id)\<close>; that order is strict, hence the list
  unique, when the message ids are distinct.
\<close>

theorem get_messages_page:
  assumes "available d" and "1 \<le> limit" and "limit \<le> 100" and "0 \<le> offset"
    and "offset < 2 ^ 63" and "plain_query q_filter"
    and "filters_fit from_filter since_filter q_filter"
  shows "\<exists>rows ordered.
    get_messages d limit offset from_filter since_filter q_filter =
      Inr (rows, length (filter (satisfies_filters text_contains_ascii from_filter since_filter
                                   q_filter) (messages d))) \<and>
    mset ordered =
      mset (filter (satisfies_filters text_contains_ascii from_filter since_filter q_filter)
              (messages d)) \<and>
    sorted (map page_key ordered) \<and>
    (distinct (map message_id (messages d)) \<longrightarrow> sorted_wrt (<) (map page_key ordered)) \<and>
    rows = take (nat limit) (drop (nat offset) ordered) \<and>
    length rows = min (nat limit) (length ordered - nat offset) \<and>
    (\<forall>i < length rows. rows ! i = ordered ! (nat offset + i))"
proof -
  let ?P = "satisfies_filters text_contains_ascii from_filter since_filter q_filter"
  let ?sel = "filter ?P (messages d)"
  let ?ord = "sort_key page_key ?sel"
  let ?rows = "take (nat limit) (drop (nat offset) ?ord)"
  have w: "select_rows (where_sql (where_clauses from_filter since_filter q_filter))
             (messages d) = Inr ?sel"
    using where_sql_satisfies [OF assms(6,7)] by (rule select_rows_filter)
  have k: "(\<lambda>r. (ts r, message_id r)) = page_key"
    by (intro ext) (simp add: page_key_def)
  have i: "sqlite_integer limit" "sqlite_integer offset"
    using assms(2-5) by (simp_all add: sqlite_integer_def)
  have g: "get_messages d limit offset from_filter since_filter q_filter =
             Inr (?rows, length ?sel)"
    using assms(1,2) i where_params_fit [OF assms(7)]
    by (simp add: get_messages_def sql_limit_offset_def w k Let_def)
  have m: "mset ?ord = mset ?sel"
    by simp
  have s: "sorted (map page_key ?ord)"
    by (rule sorted_sort_key)
  have u: "sorted_wrt (<) (map page_key ?ord)" if "distinct (map message_id (messages d))"
  proof -
    have "distinct (map page_key ?sel)"
      using that by (rule page_key_distinct)
    moreover have "mset (map page_key ?ord) = mset (map page_key ?sel)"
      by simp
    ultimately have "distinct (map page_key ?ord)"
      by (metis mset_eq_imp_distinct_iff)
    with s show ?thesis
      by (simp add: strict_sorted_iff)
  qed
  have l: "length ?rows = min (nat limit) (length ?ord - nat offset)"
    by simp
  have n: "\<forall>i < length ?rows. ?rows ! i = ?ord ! (nat offset + i)"
  proof (intro allI impI)
    fix i assume "i < length ?rows"
    then have "i < nat limit" and "nat offset \<le> length ?ord"
      by auto
    then show "?rows ! i = ?ord ! (nat offset + i)"
      by (simp add: nth_drop)
  qed
  show ?thesis
    using g m s u l n by blast
qed

lemmas get_messages_eval =
  get_messages_def where_clauses_def where_params_def sql_like_def sqlite_text_def
  utf8_size_def utf8_width_def like_pattern_limit_def sqlite_length_limit_def c_string_def
  ascii_lower_def sql_limit_offset_def sqlite_integer_def

theorem get_messages_page_witness:
  "available db_three \<and> (1::int) \<le> 2 \<and> (2::int) \<le> 100 \<and> (0::int) \<le> 1 \<and> (1::int) < 2 ^ 63 \<and>
   plain_query (Some (ascii ''O'')) \<and> filters_fit None None (Some (ascii ''O'')) \<and>
   get_messages db_three 2 1 None None (Some (ascii ''O'')) = Inr ([row_b], 2) \<and>
   get_messages db_three 2 1 None None None = Inr ([row_a, row_b], 3) \<and>
   (\<exists>ordered.
      mset ordered =
        mset (filter (satisfies_filters text_contains_ascii None None (Some (ascii ''O'')))
                (messages db_three)) \<and>
      sorted (map page_key ordered) \<and>
      [row_b] = take (nat 2) (drop (nat 1) ordered))"
proof -
  have a: "available db_three"
    by (simp add: db_three_def)
  have p: "plain_query (Some (ascii ''O''))"
    by (simp add: plain_query_def ascii_def)
  have q: "filters_fit None None (Some (ascii ''O''))"
    by (simp add: filters_fit_def ascii_def utf8_size_def utf8_width_def like_pattern_limit_def)
  have e1: "get_messages db_three 2 1 None None (Some (ascii ''O'')) = Inr ([row_b], 2)"
    by (simp add: get_messages_eval db_three_def row_a_def row_b_def row_c_def ascii_def)
  have e2: "get_messages db_three 2 1 None None None = Inr ([row_a, row_b], 3)"
    by (simp add: get_messages_eval db_three_def row_a_def row_b_def row_c_def ascii_def)
  obtain rows ordered where
    "get_messages db_three 2 1 None None (Some (ascii ''O'')) =
       Inr (rows, length (filter (satisfies_filters text_contains_ascii None None
                                    (Some (ascii ''O''))) (messages db_three)))"
    "mset ordered =
       mset (filter (satisfies_filters text_contains_ascii None None (Some (ascii ''O'')))
               (messages db_three))"
    "sorted (map page_key ordered)"
    "rows = take (nat 2) (drop (nat 1) ordered)"
    using get_messages_page [OF a _ _ _ _ p q, of 2 1] by auto
  then show ?thesis
    using a p q e1 e2 by auto
qed

lemma utf8_size_long_query: "utf8_size long_query = 49999"
  unfolding long_query_def utf8_size_def map_replicate sum_list_replicate
  by (simp add: utf8_width_def)

lemma long_query_nonempty: "long_query \<noteq> []"
  using utf8_size_long_query by (auto simp: utf8_size_def)

lemma get_messages_long_query:
  "get_messages (db_with_text t) limit offset None None (Some long_query) = Inl OperationalError"
proof -
  have "sql_like (Some t) ([37] @ long_query @ [37]) = Inl OperationalError"
    by (rule sql_like_too_long) (simp add: utf8_size_long_query like_pattern_limit_def)
  moreover have "sqlite_text ([37] @ long_query @ [37])"
    unfolding sqlite_text_def utf8_size_pattern
    by (simp add: utf8_size_long_query sqlite_length_limit_def)
  ultimately show ?thesis
    using long_query_nonempty
    by (simp add: get_messages_def where_clauses_def where_params_def db_with_text_def
        row_with_text_def)
qed

lemma utf8_size_huge_filter: "utf8_size huge_filter = 1000000001"
  unfolding huge_filter_def utf8_size_def map_replicate sum_list_replicate
  by (simp add: utf8_width_def)

lemma huge_filter_nonempty: "huge_filter \<noteq> []"
  using utf8_size_huge_filter by (auto simp: utf8_size_def)

lemma get_messages_huge_filter:
  "get_messages empty_db limit offset (Some huge_filter) None None = Inl DataError"
  using huge_filter_nonempty
  by (simp add: get_messages_def where_params_def sqlite_text_def utf8_size_huge_filter
      sqlite_length_limit_def empty_db_def)

text \<open>
  C6 as stated fails in two places.  A valid offset need not give a page: \<open>limit\<close> and
  \<open>offset\<close> are bound as 64-bit integers, and at \<open>offset = 2^63\<close> the method ends in
  \<open>OverflowError\<close>; a \<open>q\<close> of 49999 bytes makes a pattern that \<open>LIKE\<close> refuses, and the
  method ends in \<open>OperationalError\<close>; a \<open>from_filter\<close> of \<open>10^9 + 1\<close> bytes cannot be
  bound, and the method ends in \<open>DataError\<close>, even on an empty table.  And, read as \<open>q.lower() in text.lower()\<close>, the
  case-insensitive substring match differs from what \<open>text LIKE '%' || q || '%'\<close> selects:
  \<open>a_c\<close> is not contained in \<open>abc\<close>, but the row is returned (\<open>_\<close> is a wildcard);
  \<open>U+00E9\<close> is contained in \<open>U+00C9\<close> up to case, but the row is not returned (only ASCII
  letters are folded); \<open>b\<close> is contained in \<open>a\<close>, NUL, \<open>b\<close>, but the row is not returned
  (the text ends at the NUL).
\<close>

theorem get_messages_q_filter_counterexample:
  "get_messages (db_with_text (ascii ''abc'')) 50 big_offset None None None = Inl OverflowError \<and>
   get_messages (db_with_text (ascii ''abc'')) 50 0 None None (Some long_query) =
     Inl OperationalError \<and>
   get_messages empty_db 50 0 (Some huge_filter) None None = Inl DataError \<and>
   get_messages (db_with_text (ascii ''abc'')) 50 0 None None (Some (ascii ''a_c'')) =
     Inr ([row_with_text (ascii ''abc'')], 1) \<and>
   filter (satisfies_filters text_contains_claimed None None (Some (ascii ''a_c'')))
     (messages (db_with_text (ascii ''abc''))) = [] \<and>
   get_messages (db_with_text [201]) 50 0 None None (Some [233]) = Inr ([], 0) \<and>
   filter (satisfies_filters text_contains_claimed None None (Some [233]))
     (messages (db_with_text [201])) = [row_with_text [201]] \<and>
   get_messages (db_with_text [97, 0, 98]) 50 0 None None (Some [98]) = Inr ([], 0) \<and>
   filter (satisfies_filters text_contains_claimed None None (Some [98]))
     (messages (db_with_text [97, 0, 98])) = [row_with_text [97, 0, 98]]"
proof -
  have "get_messages (db_with_text (ascii ''abc'')) 50 big_offset None None None =
          Inl OverflowError"
    by (simp add: get_messages_eval db_with_text_def big_offset_def)
  moreover have
   "get_messages (db_with_text (ascii ''abc'')) 50 0 None None (Some (ascii ''a_c'')) =
     Inr ([row_with_text (ascii ''abc'')], 1) \<and>
   filter (satisfies_filters text_contains_claimed None None (Some (ascii ''a_c'')))
     (messages (db_with_text (ascii ''abc''))) = [] \<and>
   get_messages (db_with_text [201]) 50 0 None None (Some [233]) = Inr ([], 0) \<and>
   filter (satisfies_filters text_contains_claimed None None (Some [233]))
     (messages (db_with_text [201])) = [row_with_text [201]] \<and>
   get_messages (db_with_text [97, 0, 98]) 50 0 None None (Some [98]) = Inr ([], 0) \<and>
   filter (satisfies_filters text_contains_claimed None None (Some [98]))
     (messages (db_with_text [97, 0, 98])) = [row_with_text [97, 0, 98]]"
    by (simp add: get_messages_eval db_with_text_def row_with_text_def ascii_def
        satisfies_filters_def text_contains_claimed_def contains_ci_def latin1_lower_def
        sublist_code)
  ultimately show ?thesis
    using get_messages_long_query [of "ascii ''abc''" 50 0] get_messages_huge_filter [of 50 0]
    by simp
qed

section \<open>The bounds of \<open>GET /messages\<close>\<close>

lemma get_messages_returns:
  assumes "available d" and "sqlite_integer limit" and "sqlite_integer offset"
    and "filters_fit from_param since q"
  shows "\<exists>rows n. get_messages d limit offset from_param since q = Inr (rows, n)"
proof -
  have c: "\<exists>b. where_sql (where_clauses from_param since q) r = Inr b" for r
  proof -
    have "\<exists>b. sql_like (text_col r) ([37] @ v @ [37]) = Inr b" if "q = Some v" for v
    proof -
      have "\<not> like_pattern_limit < utf8_size ([37] @ v @ [37])"
        using assms(4) that unfolding utf8_size_pattern by (simp add: filters_fit_def)
      then show ?thesis by (simp add: sql_like_def)
    qed
    then show ?thesis
      by (cases q) (auto simp: where_clauses_def split: option.splits)
  qed
  have "\<exists>selected. select_rows (where_sql (where_clauses from_param since q)) rows = Inr selected"
    for rows
  proof (induction rows)
    case Nil
    show ?case by simp
  next
    case (Cons r rows)
    then show ?case
      using c [of r] by auto
  qed
  then obtain selected where
    "select_rows (where_sql (where_clauses from_param since q)) (messages d) = Inr selected"
    by blast
  then show ?thesis
    using assms(1-3) where_params_fit [OF assms(4)] by (simp add: get_messages_def)
qed

text \<open>
  C8 (amended).  \<open>GET /messages\<close> with a \<open>limit\<close> outside 1..100 or a negative \<open>offset\<close> is
  answered 422 whatever the database is (also one that cannot be reached, whose query would
  end in 500): the query is not run.  With \<open>limit = 50\<close> every offset that is not negative
  passes the check, and the answer is that of the query; for \<open>0 \<le> offset < 2^63\<close>, a store
  that can be reached and filters within the lengths that SQLite takes (\<open>from\<close> and \<open>since\<close>
  at most \<open>10^9\<close> bytes in UTF-8, \<open>q\<close> at most 49998) it is 200 with the page.
\<close>

theorem messages_endpoint_bounds:
  "((\<exists>l. limit_param = Some l \<and> (l < 1 \<or> 100 < l)) \<or> (\<exists>k. offset_param = Some k \<and> k < 0) \<longrightarrow>
      (\<forall>d. messages_endpoint d limit_param offset_param from_param since q =
            Response 422 Request_validation_errors)) \<and>
   (0 \<le> offset \<longrightarrow>
      messages_endpoint d (Some 50) (Some offset) from_param since q =
        served (case get_messages d 50 offset from_param since q of
                  Inl e \<Rightarrow> Inl e
                | Inr (rows, n) \<Rightarrow> Inr (Response 200 (Messages_response rows n 50 offset)))) \<and>
   (0 \<le> offset \<and> offset < 2 ^ 63 \<and> available d \<and> filters_fit from_param since q \<longrightarrow>
      (\<exists>rows n. get_messages d 50 offset from_param since q = Inr (rows, n) \<and>
         messages_endpoint d (Some 50) (Some offset) from_param since q =
           Response 200 (Messages_response rows n 50 offset)))"
proof -
  have "\<exists>rows n. get_messages d 50 offset from_param since q = Inr (rows, n) \<and>
         messages_endpoint d (Some 50) (Some offset) from_param since q =
           Response 200 (Messages_response rows n 50 offset)"
    if h: "0 \<le> offset" "offset < 2 ^ 63" "available d" "filters_fit from_param since q"
  proof -
    have "sqlite_integer 50" "sqlite_integer offset"
      using h(1,2) by (simp_all add: sqlite_integer_def)
    then obtain rows n where "get_messages d 50 offset from_param since q = Inr (rows, n)"
      using get_messages_returns [OF h(3) _ _ h(4)] by blast
    then show ?thesis
      using h(1) by (simp add: messages_endpoint_def served_def)
  qed
  then show ?thesis
    by (auto simp: messages_endpoint_def)
qed

theorem messages_endpoint_bounds_witness:
  "messages_endpoint offline_db (Some 0) None None None None =
     Response 422 Request_validation_errors \<and>
   messages_endpoint db_one (Some 101) None None None None =
     Response 422 Request_validation_errors \<and>
   messages_endpoint offline_db None (Some (- 1)) None None None =
     Response 422 Request_validation_errors \<and>
   messages_endpoint offline_db (Some 50) (Some 0) None None None =
     Response 500 Internal_server_error \<and>
   status_code (messages_endpoint db_one (Some 50) (Some 0) None None None) = 200 \<and>
   status_code (messages_endpoint db_one (Some 50) (Some (2 ^ 63 - 1)) None None None) = 200"
proof -
  have a: "available db_one"
    by (simp add: db_one_def empty_db_def insert_message_def has_message_def)
  have s: "filters_fit None None None"
    by (simp add: filters_fit_def)
  have "messages_endpoint offline_db (Some 0) None None None None =
          Response 422 Request_validation_errors"
    using messages_endpoint_bounds [of "Some 0" None None None None 0 db_one] by simp
  moreover have "messages_endpoint db_one (Some 101) None None None None =
          Response 422 Request_validation_errors"
    using messages_endpoint_bounds [of "Some 101" None None None None 0 db_one] by simp
  moreover have "messages_endpoint offline_db None (Some (- 1)) None None None =
          Response 422 Request_validation_errors"
    using messages_endpoint_bounds [of None "Some (- 1)" None None None 0 db_one] by simp
  moreover have "messages_endpoint offline_db (Some 50) (Some 0) None None None =
          Response 500 Internal_server_error"
    using messages_endpoint_bounds [of None None None None None 0 offline_db]
    by (simp add: served_def get_messages_def offline_db_def)
  moreover have "status_code (messages_endpoint db_one (Some 50) (Some 0) None None None) = 200"
    using a s messages_endpoint_bounds [of None None None None None 0 db_one] by auto
  moreover have
    "status_code (messages_endpoint db_one (Some 50) (Some (2 ^ 63 - 1)) None None None) = 200"
    using a s messages_endpoint_bounds [of None None None None None "2 ^ 63 - 1" db_one] by auto
  ultimately show ?thesis by simp
qed

text \<open>
  C8 as stated fails in its last clause: \<open>limit = 50\<close> with the offset \<open>2^63\<close>, which is not
  negative, passes the check and ends in the \<open>OverflowError\<close> of the query, and the client
  receives 500; so does \<open>limit = 50\<close>, \<open>offset = 0\<close> with a \<open>q\<close> of 49999 bytes on a store
  with a row, by the \<open>OperationalError\<close> of \<open>LIKE\<close>, and with a \<open>from\<close> of \<open>10^9 + 1\<close> bytes, by
  the \<open>DataError\<close> of binding it.
\<close>

theorem messages_endpoint_accept_counterexample:
  "messages_endpoint (db_with_text (ascii ''abc'')) (Some 50) (Some big_offset) None None None =
     Response 500 Internal_server_error \<and>
   messages_endpoint (db_with_text (ascii ''abc'')) (Some 50) (Some 0) None None
     (Some long_query) = Response 500 Internal_server_error \<and>
   messages_endpoint empty_db (Some 50) (Some 0) (Some huge_filter) None None =
     Response 500 Internal_server_error"
proof -
  have "get_messages (db_with_text (ascii ''abc'')) 50 big_offset None None None =
          Inl OverflowError"
    by (simp add: get_messages_eval db_with_text_def big_offset_def)
  then show ?thesis
    using get_messages_long_query [of "ascii ''abc''" 50 0] get_messages_huge_filter [of 50 0]
    by (simp add: messages_endpoint_def served_def big_offset_def)
qed

section \<open>The signature verifier\<close>

lemma sha256_round_length: "length (sha256_round st kw) = length st"
  by (cases "(st, kw)" rule: sha256_round.cases) (simp_all add: Let_def)

lemma foldl_sha256_round_length: "length (foldl sha256_round st kws) = length st"
  by (induction kws arbitrary: st) (simp_all add: sha256_round_length)

lemma sha256_block_length: "length (sha256_block st blk) = length st"
  by (simp add: sha256_block_def foldl_sha256_round_length)

lemma sha256_blocks_length: "length (sha256_blocks n st m) = length st"
  by (induction n arbitrary: st m) (simp_all add: sha256_block_length)

lemma length_concat_be_bytes: "length (concat (map be_bytes ws)) = 4 * length ws"
  by (induction ws) (simp_all add: be_bytes_def)

lemma sha256_length: "length (sha256 m) = 32"
  by (simp add: sha256_def Let_def length_concat_be_bytes sha256_blocks_length sha256_init_def)

lemma hmac_sha256_length: "length (hmac_sha256 key msg) = 32"
  by (simp add: hmac_sha256_def Let_def sha256_length)

lemma hexdigest_length: "length (hexdigest bs) = 2 * length bs"
  by (induction bs) (simp_all add: hexdigest_def)

lemma hex_digit_range: "d < 16 \<Longrightarrow> hex_digit d \<in> {48..57} \<union> {97..102}"
  by (auto simp: hex_digit_def)

lemma hexdigest_chars: "set (hexdigest bs) \<subseteq> {48..57} \<union> {97..102}"
proof -
  have "unat b div 16 < 16" and "unat b mod 16 < 16" for b :: byte
  proof -
    have "unat b < 256"
      using unsigned_less [of b, where ?'a = nat] by simp
    then show "unat b div 16 < 16" by simp
    show "unat b mod 16 < 16" by simp
  qed
  then have "hex_digit (unat b div 16) \<in> {48..57} \<union> {97..102}"
    and "hex_digit (unat b mod 16) \<in> {48..57} \<union> {97..102}" for b :: byte
    by (simp_all only: hex_digit_range)
  then show ?thesis
    unfolding hexdigest_def by (induction bs) auto
qed

lemma hexdigest_ascii: "is_ascii (hexdigest bs)"
  using hexdigest_chars [of bs] by (fastforce simp: is_ascii_def list_all_iff)

lemma hmac_hexdigest_nonempty: "hexdigest (hmac_sha256 key msg) \<noteq> []"
proof -
  have "length (hexdigest (hmac_sha256 key msg)) = 64"
    by (simp add: hexdigest_length hmac_sha256_length)
  then show ?thesis by auto
qed

lemma verify_signature_ascii:
  assumes "encode (webhook_secret cfg) = Inr key" and "sg \<noteq> []"
  shows "verify_signature cfg msg (Some sg) =
           (if is_ascii sg then Inr (hexdigest (hmac_sha256 key msg) = sg) else Inl TypeError)"
  using assms by (simp add: verify_signature_def compare_digest_def hexdigest_ascii)

text \<open>
  C4.  \<open>verify_signature\<close> returns \<open>False\<close> for a missing and for an empty signature,
  whatever the configuration is (also one whose secret cannot be encoded, where computing
  the HMAC would raise): the HMAC is not reached.  For a given signature and a secret with
  the UTF-8 encoding \<open>key\<close> it returns \<open>True\<close> exactly when the signature is the
  \<open>hexdigest\<close> of HMAC-SHA256 of the body under \<open>key\<close>, which is a string of 64 characters
  among \<open>0\<close> to \<open>9\<close> and \<open>a\<close> to \<open>f\<close>.  The comparison is \<open>hmac.compare_digest\<close>.
\<close>

theorem verify_signature_iff:
  "verify_signature cfg msg None = Inr False \<and>
   verify_signature cfg msg (Some []) = Inr False \<and>
   (encode (webhook_secret cfg) = Inr key \<longrightarrow>
      (verify_signature cfg msg (Some sg) = Inr True \<longleftrightarrow> sg = hexdigest (hmac_sha256 key msg)) \<and>
      (sg \<noteq> [] \<longrightarrow>
         verify_signature cfg msg (Some sg) = compare_digest (hexdigest (hmac_sha256 key msg)) sg)) \<and>
   length (hexdigest (hmac_sha256 key msg)) = 64 \<and>
   set (hexdigest (hmac_sha256 key msg)) \<subseteq> {48..57} \<union> {97..102}"
proof -
  have "verify_signature cfg msg (Some sg) = Inr True \<longleftrightarrow> sg = hexdigest (hmac_sha256 key msg)"
    if k: "encode (webhook_secret cfg) = Inr key"
  proof (cases "sg = []")
    case True
    then show ?thesis
      using hmac_hexdigest_nonempty [of key msg] by (auto simp: verify_signature_def)
  next
    case False
    show ?thesis
      using verify_signature_ascii [OF k False, of msg] hexdigest_ascii [of "hmac_sha256 key msg"]
      by auto
  qed
  moreover have "verify_signature cfg msg (Some sg) =
      compare_digest (hexdigest (hmac_sha256 key msg)) sg"
    if "encode (webhook_secret cfg) = Inr key" and "sg \<noteq> []"
    using that by (simp add: verify_signature_def)
  ultimately show ?thesis
    using hexdigest_chars [of "hmac_sha256 key msg"]
    by (simp add: verify_signature_def hexdigest_length hmac_sha256_length)
qed

lemma encode_test_secret: "encode (webhook_secret test_config) = Inr test_key"
  by (simp add: test_config_def test_key_def ascii_def ascii_bytes_def utf8_char_def)

theorem verify_signature_iff_witness:
  "encode (webhook_secret test_config) = Inr test_key \<and>
   verify_signature test_config empty_object_body (Some (valid_signature empty_object_body)) =
     Inr True \<and>
   verify_signature test_config empty_object_body (Some (ascii ''invalid'')) = Inr False \<and>
   verify_signature test_config empty_object_body (Some []) = Inr False \<and>
   verify_signature test_config empty_object_body None = Inr False"
proof -
  note k = encode_test_secret
  note t = verify_signature_iff [of test_config empty_object_body test_key]
  have "verify_signature test_config empty_object_body
          (Some (valid_signature empty_object_body)) = Inr True"
    using k t [of "valid_signature empty_object_body"] by (simp add: valid_signature_def)
  moreover have "verify_signature test_config empty_object_body (Some (ascii ''invalid'')) =
          Inr False"
  proof -
    have "length (hexdigest (hmac_sha256 test_key empty_object_body)) \<noteq> length (ascii ''invalid'')"
      using t [of "ascii ''invalid''"] by (simp add: ascii_def)
    then have "hexdigest (hmac_sha256 test_key empty_object_body) \<noteq> ascii ''invalid''"
      by auto
    moreover have "is_ascii (ascii ''invalid'')"
      by (simp add: is_ascii_def ascii_def)
    moreover have "ascii ''invalid'' \<noteq> []"
      by (simp add: ascii_def)
    ultimately show ?thesis
      using k t [of "ascii ''invalid''"] hexdigest_ascii [of "hmac_sha256 test_key empty_object_body"]
      by (simp add: compare_digest_def)
  qed
  ultimately show ?thesis
    using k t [of "[]"] by simp
qed

section \<open>The payload validator\<close>

text \<open>
  What the two patterns accept.  A run of \<open>\d\<close> is a run of Unicode decimal digits, and \<open>$\<close>
  lets one newline follow: \<^verbatim>\<open>^\+\d+$\<close> accepts \<open>+\<close>, at least one decimal digit and an
  optional final newline, and nothing else; the timestamp pattern accepts the fixed-width
  fields, an optional fraction, \<open>Z\<close> and an optional final newline, and nothing else.
\<close>

lemma re_run_Digit:
  "re_run Digit (p, s) =
     (case s of [] \<Rightarrow> [] | x # xs \<Rightarrow> if unicode_decimal x then [(Suc p, xs)] else [])"
  by (simp split: list.splits)

lemma iterate_plus_class:
  assumes step: "\<And>p s. step (p, s) =
     (case s of [] \<Rightarrow> [] | x # xs \<Rightarrow> if P x then [(Suc p, xs)] else [])"
  shows "d \<in> set (iterate_plus step n (p, s)) \<longleftrightarrow>
     (\<exists>k. 1 \<le> k \<and> k \<le> Suc n \<and> k \<le> length s \<and> list_all P (take k s) \<and>
          d = (p + k, drop k s))"
proof (induction n arbitrary: p s)
  case 0
  show ?case
  proof (cases s)
    case Nil
    then show ?thesis by (auto simp: step)
  next
    case (Cons x xs)
    have "(\<exists>k. 1 \<le> k \<and> k \<le> Suc 0 \<and> k \<le> length s \<and> list_all P (take k s) \<and>
             d = (p + k, drop k s)) \<longleftrightarrow> P x \<and> d = (Suc p, xs)"
    proof
      assume "\<exists>k. 1 \<le> k \<and> k \<le> Suc 0 \<and> k \<le> length s \<and> list_all P (take k s) \<and>
             d = (p + k, drop k s)"
      then obtain k where "1 \<le> k" "k \<le> Suc 0" "list_all P (take k s)"
        "d = (p + k, drop k s)" by blast
      moreover from this have "k = 1" by simp
      ultimately show "P x \<and> d = (Suc p, xs)"
        using Cons by simp
    next
      assume "P x \<and> d = (Suc p, xs)"
      then have "1 \<le> (1::nat) \<and> (1::nat) \<le> Suc 0 \<and> 1 \<le> length s \<and>
        list_all P (take 1 s) \<and> d = (p + 1, drop 1 s)"
        using Cons by simp
      then show "\<exists>k. 1 \<le> k \<and> k \<le> Suc 0 \<and> k \<le> length s \<and>
        list_all P (take k s) \<and> d = (p + k, drop k s)"
        by blast
    qed
    then show ?thesis
      using Cons by (auto simp: step)
  qed
next
  case (Suc n)
  show ?case
  proof (cases s)
    case Nil
    then show ?thesis by (auto simp: step)
  next
    case (Cons x xs)
    show ?thesis
    proof (cases "P x")
      case False
      have "\<not> list_all P (take k s)" if "1 \<le> k" for k
        using that False Cons by (cases k) simp_all
      then show ?thesis
        using False Cons by (auto simp: step)
    next
      case True
      have l: "d \<in> set (iterate_plus step (Suc n) (p, s)) \<longleftrightarrow>
           d \<in> set (iterate_plus step n (Suc p, xs)) \<or> d = (Suc p, xs)"
        using True Cons by (auto simp: step)
      have r: "(\<exists>k. 1 \<le> k \<and> k \<le> Suc (Suc n) \<and> k \<le> length s \<and>
                list_all P (take k s) \<and> d = (p + k, drop k s)) \<longleftrightarrow>
            (\<exists>j. 1 \<le> j \<and> j \<le> Suc n \<and> j \<le> length xs \<and>
                list_all P (take j xs) \<and> d = (Suc p + j, drop j xs)) \<or>
            d = (Suc p, xs)"
      proof
        assume "\<exists>k. 1 \<le> k \<and> k \<le> Suc (Suc n) \<and> k \<le> length s \<and>
                list_all P (take k s) \<and> d = (p + k, drop k s)"
        then obtain k where k: "1 \<le> k" "k \<le> Suc (Suc n)" "k \<le> length s"
          "list_all P (take k s)" "d = (p + k, drop k s)" by blast
        then obtain j where j: "k = Suc j" by (cases k) auto
        show "(\<exists>j. 1 \<le> j \<and> j \<le> Suc n \<and> j \<le> length xs \<and>
                list_all P (take j xs) \<and> d = (Suc p + j, drop j xs)) \<or>
            d = (Suc p, xs)"
        proof (cases j)
          case 0
          then show ?thesis using k j Cons by simp
        next
          case (Suc i)
          then have "1 \<le> j \<and> j \<le> Suc n \<and> j \<le> length xs \<and>
                list_all P (take j xs) \<and> d = (Suc p + j, drop j xs)"
            using k j Cons by simp
          then show ?thesis by blast
        qed
      next
        assume "(\<exists>j. 1 \<le> j \<and> j \<le> Suc n \<and> j \<le> length xs \<and>
                list_all P (take j xs) \<and> d = (Suc p + j, drop j xs)) \<or>
            d = (Suc p, xs)"
        then consider j where "1 \<le> j" "j \<le> Suc n" "j \<le> length xs"
            "list_all P (take j xs)" "d = (Suc p + j, drop j xs)"
          | "d = (Suc p, xs)" by blast
        then show "\<exists>k. 1 \<le> k \<and> k \<le> Suc (Suc n) \<and> k \<le> length s \<and>
                list_all P (take k s) \<and> d = (p + k, drop k s)"
        proof cases
          case 1
          then have "1 \<le> Suc j \<and> Suc j \<le> Suc (Suc n) \<and> Suc j \<le> length s \<and>
                list_all P (take (Suc j) s) \<and> d = (p + Suc j, drop (Suc j) s)"
            using True Cons by simp
          then show ?thesis by blast
        next
          case 2
          then have "1 \<le> (1::nat) \<and> (1::nat) \<le> Suc (Suc n) \<and> 1 \<le> length s \<and>
                list_all P (take 1 s) \<and> d = (p + 1, drop 1 s)"
            using True Cons by simp
          then show ?thesis by blast
        qed
      qed
      show ?thesis
        unfolding l r using Suc.IH [of "Suc p" xs] by simp
    qed
  qed
qed


lemma re_run_Plus_Digit:
  "d \<in> set (re_run (Plus Digit) (p, s)) \<longleftrightarrow>
     (\<exists>k. 1 \<le> k \<and> k \<le> length s \<and> list_all unicode_decimal (take k s) \<and>
          d = (p + k, drop k s))"
proof -
  have "re_run (Plus Digit) (p, s) = iterate_plus (re_run Digit) (length s) (p, s)"
    by (simp only: re_run.simps snd_conv)
  then show ?thesis
    using iterate_plus_class [where step = "re_run Digit" and P = unicode_decimal,
        OF re_run_Digit, of d "length s" p s]
    by auto
qed

lemma digits_then_end:
  "(\<exists>d \<in> set (re_run (Plus Digit) (p, s)). snd d = [] \<or> snd d = [10]) \<longleftrightarrow>
   (\<exists>ds. ds \<noteq> [] \<and> list_all unicode_decimal ds \<and> (s = ds \<or> s = ds @ [10]))"
proof
  assume "\<exists>d \<in> set (re_run (Plus Digit) (p, s)). snd d = [] \<or> snd d = [10]"
  then obtain d where "d \<in> set (re_run (Plus Digit) (p, s))" and e: "snd d = [] \<or> snd d = [10]"
    by blast
  then obtain k where "1 \<le> k" "k \<le> length s" "list_all unicode_decimal (take k s)"
    "d = (p + k, drop k s)"
    using re_run_Plus_Digit [of d p s] by blast
  with e have k: "1 \<le> k" "k \<le> length s" "list_all unicode_decimal (take k s)"
    "drop k s = [] \<or> drop k s = [10]"
    by simp_all
  have "s = take k s @ drop k s" by simp
  then have "s = take k s \<or> s = take k s @ [10]"
    using k(4) by (metis append_Nil2)
  moreover have "take k s \<noteq> []"
    using k(1,2) by auto
  ultimately show "\<exists>ds. ds \<noteq> [] \<and> list_all unicode_decimal ds \<and> (s = ds \<or> s = ds @ [10])"
    using k(3) by blast
next
  assume "\<exists>ds. ds \<noteq> [] \<and> list_all unicode_decimal ds \<and> (s = ds \<or> s = ds @ [10])"
  then obtain ds where ds: "ds \<noteq> []" "list_all unicode_decimal ds" "s = ds \<or> s = ds @ [10]"
    by blast
  let ?d = "(p + length ds, drop (length ds) s)"
  have "1 \<le> length ds" "length ds \<le> length s" "list_all unicode_decimal (take (length ds) s)"
    "snd ?d = [] \<or> snd ?d = [10]"
    using ds by (cases ds; auto)+
  then have "?d \<in> set (re_run (Plus Digit) (p, s))" and "snd ?d = [] \<or> snd ?d = [10]"
    using re_run_Plus_Digit [of ?d p s] by blast+
  then show "\<exists>d \<in> set (re_run (Plus Digit) (p, s)). snd d = [] \<or> snd d = [10]"
    by blast
qed

lemma e164_accepts_iff:
  "re_match e164_pattern v \<longleftrightarrow>
     (\<exists>ds. ds \<noteq> [] \<and> list_all unicode_decimal ds \<and> (v = 43 # ds \<or> v = 43 # ds @ [10]))"
proof (cases v)
  case Nil
  then show ?thesis
    by (simp add: re_match_def e164_pattern_def seq_def)
next
  case (Cons x rest)
  have "re_match e164_pattern v \<longleftrightarrow>
          x = 43 \<and> (\<exists>d \<in> set (re_run (Plus Digit) (1, rest)). snd d = [] \<or> snd d = [10])"
    using Cons by (auto simp add: re_match_def e164_pattern_def seq_def simp del: re_run.simps(8))
  then show ?thesis
    unfolding digits_then_end using Cons by auto
qed


lemma iterate_times_class:
  assumes step: "\<And>p s. step (p, s) =
     (case s of [] \<Rightarrow> [] | x # xs \<Rightarrow> if P x then [(Suc p, xs)] else [])"
  shows "iterate_times step n (p, s) =
     (if n \<le> length s \<and> list_all P (take n s) then [(p + n, drop n s)] else [])"
proof (induction n arbitrary: p s)
  case 0
  show ?case by simp
next
  case (Suc n)
  show ?case
  proof (cases s)
    case Nil
    then show ?thesis by (simp add: step)
  next
    case (Cons x xs)
    then show ?thesis
      using Suc.IH [of "Suc p" xs] by (simp add: step)
  qed
qed

lemma cat_Bol: "re_run (Cat Bol r) (0, s) = re_run r (0, s)"
  by simp

lemma cat_Lit_nonempty:
  "re_run (Cat (Lit a) r) (p, s) \<noteq> [] \<longleftrightarrow> (\<exists>t. s = a # t \<and> re_run r (Suc p, t) \<noteq> [])"
  by (cases s) auto

lemma cat_Times_Digit_nonempty:
  "re_run (Cat (Times n Digit) r) (p, s) \<noteq> [] \<longleftrightarrow>
     (\<exists>a t. s = a @ t \<and> length a = n \<and> list_all unicode_decimal a \<and> re_run r (p + n, t) \<noteq> [])"
proof -
  have "re_run (Cat (Times n Digit) r) (p, s) =
          concat (map (re_run r) (iterate_times (re_run Digit) n (p, s)))"
    by (simp only: re_run.simps)
  also have "iterate_times (re_run Digit) n (p, s) =
     (if n \<le> length s \<and> list_all unicode_decimal (take n s) then [(p + n, drop n s)] else [])"
    by (rule iterate_times_class [where step = "re_run Digit" and P = unicode_decimal,
          OF re_run_Digit])
  finally have e: "re_run (Cat (Times n Digit) r) (p, s) \<noteq> [] \<longleftrightarrow>
      n \<le> length s \<and> list_all unicode_decimal (take n s) \<and> re_run r (p + n, drop n s) \<noteq> []"
    by (simp del: re_run.simps)
  show ?thesis
  proof
    assume "re_run (Cat (Times n Digit) r) (p, s) \<noteq> []"
    then have "s = take n s @ drop n s \<and> length (take n s) = n \<and>
       list_all unicode_decimal (take n s) \<and> re_run r (p + n, drop n s) \<noteq> []"
      unfolding e by simp
    then show "\<exists>a t. s = a @ t \<and> length a = n \<and> list_all unicode_decimal a \<and>
       re_run r (p + n, t) \<noteq> []"
      by blast
  next
    assume "\<exists>a t. s = a @ t \<and> length a = n \<and> list_all unicode_decimal a \<and>
       re_run r (p + n, t) \<noteq> []"
    then obtain a t where "s = a @ t" "length a = n" "list_all unicode_decimal a"
      "re_run r (p + n, t) \<noteq> []" by blast
    then show "re_run (Cat (Times n Digit) r) (p, s) \<noteq> []"
      unfolding e by simp
  qed
qed

lemma z_then_end:
  "re_run (Cat (Lit 90) Eol) (p, s) \<noteq> [] \<longleftrightarrow> (\<exists>nl. s = 90 # nl \<and> (nl = [] \<or> nl = [10]))"
  by (cases s) auto

lemma fraction_tail_nonempty:
  "re_run (Cat (Opt (Cat (Lit 46) (Plus Digit))) (Cat (Lit 90) Eol)) (p, s) \<noteq> [] \<longleftrightarrow>
     (\<exists>frac nl. s = frac @ 90 # nl \<and>
        (frac = [] \<or> (\<exists>fs. fs \<noteq> [] \<and> list_all unicode_decimal fs \<and> frac = 46 # fs)) \<and>
        (nl = [] \<or> nl = [10]))"
proof -
  let ?Z = "Cat (Lit 90) Eol"
  have split: "re_run (Cat (Opt (Cat (Lit 46) (Plus Digit))) ?Z) (p, s) \<noteq> [] \<longleftrightarrow>
      (\<exists>d \<in> set (re_run (Cat (Lit 46) (Plus Digit)) (p, s)). re_run ?Z d \<noteq> []) \<or>
      re_run ?Z (p, s) \<noteq> []"
    by (auto simp del: re_run.simps(3,8) simp add: re_run.simps(5,6))
  have frac: "(\<exists>d \<in> set (re_run (Cat (Lit 46) (Plus Digit)) (p, s)). re_run ?Z d \<noteq> []) \<longleftrightarrow>
      (\<exists>fs nl. fs \<noteq> [] \<and> list_all unicode_decimal fs \<and> s = (46 # fs) @ 90 # nl \<and>
         (nl = [] \<or> nl = [10]))"
  proof
    assume "\<exists>d \<in> set (re_run (Cat (Lit 46) (Plus Digit)) (p, s)). re_run ?Z d \<noteq> []"
    then obtain d where d: "d \<in> set (re_run (Cat (Lit 46) (Plus Digit)) (p, s))"
      and z: "re_run ?Z d \<noteq> []" by blast
    from d obtain xs where xs: "s = 46 # xs" "d \<in> set (re_run (Plus Digit) (Suc p, xs))"
      by (cases s) (auto simp del: re_run.simps(8) split: if_splits)
    then obtain k where k: "1 \<le> k" "k \<le> length xs" "list_all unicode_decimal (take k xs)"
      "d = (Suc p + k, drop k xs)"
      using re_run_Plus_Digit [of d "Suc p" xs] by blast
    from z k(4) obtain nl where nl: "drop k xs = 90 # nl" "nl = [] \<or> nl = [10]"
      using z_then_end [of "Suc p + k" "drop k xs"] by auto
    have "xs = take k xs @ drop k xs" by simp
    then have "s = (46 # take k xs) @ 90 # nl"
      using xs(1) nl(1) by (metis append_Cons)
    moreover have "take k xs \<noteq> []"
      using k(1,2) by auto
    ultimately show "\<exists>fs nl. fs \<noteq> [] \<and> list_all unicode_decimal fs \<and> s = (46 # fs) @ 90 # nl \<and>
         (nl = [] \<or> nl = [10])"
      using k(3) nl(2) by blast
  next
    assume "\<exists>fs nl. fs \<noteq> [] \<and> list_all unicode_decimal fs \<and> s = (46 # fs) @ 90 # nl \<and>
         (nl = [] \<or> nl = [10])"
    then obtain fs nl where f: "fs \<noteq> []" "list_all unicode_decimal fs"
      "s = (46 # fs) @ 90 # nl" "nl = [] \<or> nl = [10]" by blast
    let ?d = "(Suc p + length fs, 90 # nl)"
    have "1 \<le> length fs \<and> length fs \<le> length (fs @ 90 # nl) \<and>
          list_all unicode_decimal (take (length fs) (fs @ 90 # nl)) \<and>
          ?d = (Suc p + length fs, drop (length fs) (fs @ 90 # nl))"
      using f(1,2) by (cases fs) auto
    then have "?d \<in> set (re_run (Plus Digit) (Suc p, fs @ 90 # nl))"
      using re_run_Plus_Digit [of ?d "Suc p" "fs @ 90 # nl"] by blast
    then have "?d \<in> set (re_run (Cat (Lit 46) (Plus Digit)) (p, s))"
      using f(3) by (simp del: re_run.simps(8))
    moreover have "re_run ?Z ?d \<noteq> []"
      using z_then_end [of "Suc p + length fs" "90 # nl"] f(4) by blast
    ultimately show "\<exists>d \<in> set (re_run (Cat (Lit 46) (Plus Digit)) (p, s)). re_run ?Z d \<noteq> []"
      by blast
  qed
  have none: "re_run ?Z (p, s) \<noteq> [] \<longleftrightarrow> (\<exists>nl. s = [] @ 90 # nl \<and> (nl = [] \<or> nl = [10]))"
    using z_then_end [of p s] by simp
  show ?thesis
    unfolding split frac none by blast
qed


lemma iso8601_accepts_iff:
  "re_match iso8601_pattern v \<longleftrightarrow>
     (\<exists>y mo dd hh mi ss frac nl.
        v = y @ 45 # mo @ 45 # dd @ 84 # hh @ 58 # mi @ 58 # ss @ frac @ 90 # nl \<and>
        length y = 4 \<and> list_all unicode_decimal y \<and>
        length mo = 2 \<and> list_all unicode_decimal mo \<and>
        length dd = 2 \<and> list_all unicode_decimal dd \<and>
        length hh = 2 \<and> list_all unicode_decimal hh \<and>
        length mi = 2 \<and> list_all unicode_decimal mi \<and>
        length ss = 2 \<and> list_all unicode_decimal ss \<and>
        (frac = [] \<or> (\<exists>fs. fs \<noteq> [] \<and> list_all unicode_decimal fs \<and> frac = 46 # fs)) \<and>
        (nl = [] \<or> nl = [10]))"
proof -
  have p: "iso8601_pattern =
      Cat Bol (Cat (Times 4 Digit) (Cat (Lit 45) (Cat (Times 2 Digit) (Cat (Lit 45)
        (Cat (Times 2 Digit) (Cat (Lit 84) (Cat (Times 2 Digit) (Cat (Lit 58)
          (Cat (Times 2 Digit) (Cat (Lit 58) (Cat (Times 2 Digit)
            (Cat (Opt (Cat (Lit 46) (Plus Digit))) (Cat (Lit 90) Eol)))))))))))))"
    by (simp add: iso8601_pattern_def seq_def)
  show ?thesis
    unfolding re_match_def p cat_Bol cat_Lit_nonempty cat_Times_Digit_nonempty
      fraction_tail_nonempty
    by (intro iffI; elim exE conjE; hypsubst; intro exI conjI; (rule refl | assumption))
qed


text \<open>
  The payload is accepted exactly when the body is a JSON object in which every field
  passes, and is rejected with \<open>ValidationError\<close> otherwise.
\<close>

lemma required_str_Some:
  "required_str members key = Some s \<longleftrightarrow> map_of members key = Some (JString s)"
  by (auto simp: required_str_def split: option.splits json.splits)

lemma field_message_id_Some:
  "field_message_id members = Some m \<longleftrightarrow>
     map_of members (ascii ''message_id'') = Some (JString m) \<and> m \<noteq> []"
  by (auto simp: field_message_id_def required_str_def Suc_le_eq split: option.splits json.splits)

lemma field_from_Some:
  "field_from members = Some f \<longleftrightarrow>
     map_of members (ascii ''from'') = Some (JString f) \<and> re_match e164_pattern f"
  by (auto simp: field_from_def validate_e164_def required_str_def split: option.splits json.splits)

lemma field_to_Some:
  "field_to members = Some t \<longleftrightarrow>
     map_of members (ascii ''to'') = Some (JString t) \<and> re_match e164_pattern t"
  by (auto simp: field_to_def validate_e164_def required_str_def split: option.splits json.splits)

lemma field_ts_Some:
  "field_ts members = Some s \<longleftrightarrow>
     map_of members (ascii ''ts'') = Some (JString s) \<and> re_match iso8601_pattern s"
  by (auto simp: field_ts_def validate_iso8601_def required_str_def split: option.splits json.splits)

lemma field_text_Some:
  "field_text members = Some x \<longleftrightarrow>
     (x = None \<and> (map_of members (ascii ''text'') = None \<or>
                  map_of members (ascii ''text'') = Some JNull)) \<or>
     (\<exists>s. x = Some s \<and> map_of members (ascii ''text'') = Some (JString s) \<and> length s \<le> 4096)"
  by (auto simp: field_text_def split: option.splits json.splits)

lemma model_validate_json_Inr_iff:
  "model_validate_json parsed = Inr p \<longleftrightarrow>
     (\<exists>members. parsed = Some (JObject members) \<and>
        field_message_id members = Some (payload_message_id p) \<and>
        field_from members = Some (payload_from p) \<and>
        field_to members = Some (payload_to p) \<and>
        field_ts members = Some (payload_ts p) \<and>
        field_text members = Some (payload_text p))"
  by (cases p) (auto simp: model_validate_json_def split: option.splits json.splits)

lemma model_validate_json_raises:
  "model_validate_json parsed = Inl e \<Longrightarrow> e = ValidationError"
  by (auto simp: model_validate_json_def split: option.splits json.splits)

text \<open>Unfolding a counted repetition, to evaluate a match on a given string.\<close>

lemma iterate_times_numeral:
  "iterate_times step (numeral k) c =
     concat (map (iterate_times step (pred_numeral k)) (step c))"
  by (simp add: numeral_eq_Suc)

lemmas validator_defs =
  iterate_times_numeral
  model_validate_json_def field_message_id_def field_from_def field_to_def field_ts_def
  field_text_def required_str_def validate_e164_def validate_iso8601_def re_match_def
  e164_pattern_def iso8601_pattern_def seq_def unicode_decimal_def decimal_blocks_def

text \<open>
  C3 at inputs that the claim excludes.  The claim asks for a full match of
  \<^verbatim>\<open>^\+[0-9]+$\<close> and of the timestamp pattern, with no trailing newline and with the ASCII
  digits only.  \<open>re.match\<close> with \<open>$\<close> also accepts a newline as the last character, and
  \<open>\d\<close> also accepts the other decimal digits of Unicode: a sender \<open>+1\<close> followed by a
  newline, the sender \<open>+\<close> \<open>U+0661\<close> (ARABIC-INDIC DIGIT ONE) and a timestamp followed by a
  newline are all accepted and stored as they are.
\<close>

theorem model_validate_json_accepts_newline:
  "model_validate_json
     (Some (JObject (payload_members (ascii ''+1'' @ [10]) (ascii ''2024-01-15T10:30:00Z'')))) =
     Inr \<lparr>payload_message_id = ascii ''m1'', payload_from = ascii ''+1'' @ [10],
          payload_to = ascii ''+2'', payload_ts = ascii ''2024-01-15T10:30:00Z'',
          payload_text = None\<rparr> \<and>
   model_validate_json
     (Some (JObject (payload_members [43, 1633] (ascii ''2024-01-15T10:30:00Z'')))) =
     Inr \<lparr>payload_message_id = ascii ''m1'', payload_from = [43, 1633],
          payload_to = ascii ''+2'', payload_ts = ascii ''2024-01-15T10:30:00Z'',
          payload_text = None\<rparr> \<and>
   model_validate_json
     (Some (JObject (payload_members (ascii ''+1'') (ascii ''2024-01-15T10:30:00Z'' @ [10])))) =
     Inr \<lparr>payload_message_id = ascii ''m1'', payload_from = ascii ''+1'',
          payload_to = ascii ''+2'', payload_ts = ascii ''2024-01-15T10:30:00Z'' @ [10],
          payload_text = None\<rparr>"
  by (simp add: validator_defs payload_members_def ascii_def)

section \<open>The webhook endpoint\<close>

lemma verify_valid_signature:
  "verify_signature test_config msg (Some (valid_signature msg)) = Inr True"
proof -
  have "valid_signature msg \<noteq> []" and "is_ascii (valid_signature msg)"
    by (simp_all add: valid_signature_def hmac_hexdigest_nonempty hexdigest_ascii)
  then show ?thesis
    using verify_signature_ascii [OF encode_test_secret, of "valid_signature msg" msg]
    by (simp add: valid_signature_def)
qed

text \<open>
  The order of the steps.  When the verifier returns \<open>False\<close> the answer is 401 with the
  outcome \<open>invalid_signature\<close> logged and counted once, and neither the answer nor the new
  state depends on the parse of the body; the table is not touched.
\<close>

lemma webhook_invalid_signature:
  assumes "verify_signature cfg (body req) (x_signature req) = Inr False"
  shows "webhook cfg now req s =
           (Inr (Response 401 (Detail (ascii ''invalid signature''))),
            increment_webhook_request invalid_signature (log_json ERROR 401 invalid_signature s))"
    and "db (snd (webhook cfg now req s)) = db s"
    and "webhook cfg now (req\<lparr>body_json := j\<rparr>) s = webhook cfg now req s"
  using assms by (simp_all add: webhook_def increment_webhook_request_def log_json_def)

text \<open>Whenever the verifier does not return \<open>True\<close>, by \<open>False\<close> or by an exception, the
  payload is not looked at and nothing is inserted.\<close>

lemma webhook_gate:
  assumes "verify_signature cfg (body req) (x_signature req) \<noteq> Inr True"
  shows "db (snd (webhook cfg now req s)) = db s"
    and "webhook cfg now (req\<lparr>body_json := j\<rparr>) s = webhook cfg now req s"
  using assms
  by (auto simp: webhook_def increment_webhook_request_def log_json_def
      split: sum.splits bool.splits)

text \<open>A missing, an empty and a wrong ASCII signature are answered 401.\<close>

lemma webhook_401:
  assumes "encode (webhook_secret cfg) = Inr key"
    and "x_signature req = None \<or> x_signature req = Some [] \<or>
         (\<exists>sg. x_signature req = Some sg \<and> is_ascii sg \<and>
               sg \<noteq> hexdigest (hmac_sha256 key (body req)))"
  shows "post_webhook cfg now req s =
           (Response 401 (Detail (ascii ''invalid signature'')),
            increment_webhook_request invalid_signature (log_json ERROR 401 invalid_signature s))"
proof -
  have f: "verify_signature cfg (body req) (x_signature req) = Inr False"
  proof (cases "x_signature req")
    case None
    then show ?thesis by (simp add: verify_signature_def)
  next
    case (Some sg)
    show ?thesis
    proof (cases "sg = []")
      case True
      with Some show ?thesis by (simp add: verify_signature_def)
    next
      case False
      have "is_ascii sg" and "hexdigest (hmac_sha256 key (body req)) \<noteq> sg"
        using assms(2) Some False by auto
      then have "verify_signature cfg (body req) (Some sg) = Inr False"
        by (simp add: verify_signature_ascii [OF assms(1) False])
      with Some show ?thesis by simp
    qed
  qed
  have "webhook cfg now req s =
          (Inr (Response 401 (Detail (ascii ''invalid signature''))),
           increment_webhook_request invalid_signature (log_json ERROR 401 invalid_signature s))"
    using f by (rule webhook_invalid_signature(1))
  then show ?thesis
    by (simp add: post_webhook_def served_def)
qed

text \<open>
  Behind the gate, with a payload that validates.  On a reachable store the answer is 200
  with the fixed acknowledgment; the outcome is \<open>duplicate\<close> when the key is stored already, and
  then the table is as before, and \<open>success\<close> otherwise, and then the new row can be looked
  up.  On a store that cannot be reached the answer is 500 with the outcome \<open>db_error\<close>.
\<close>

lemma webhook_persist:
  assumes "verify_signature cfg (body req) (x_signature req) = Inr True"
    and "model_validate_json (body_json req) = Inr p"
    and "available (db s)"
  shows "has_message (db s) (payload_message_id p) \<Longrightarrow>
           post_webhook cfg now req s =
             (Response 200 Status_ok,
              increment_webhook_request duplicate (log_json INFO 200 duplicate s))"
    and "\<not> has_message (db s) (payload_message_id p) \<Longrightarrow>
           fst (post_webhook cfg now req s) = Response 200 Status_ok \<and>
           log_records (snd (post_webhook cfg now req s)) =
             log_records s @ [\<lparr>log_level_of = INFO, log_status = 200, log_result = success\<rparr>] \<and>
           lookup_message (db (snd (post_webhook cfg now req s))) (payload_message_id p) =
             Some \<lparr>message_id = payload_message_id p, from_msisdn = payload_from p,
                   to_msisdn = payload_to p, ts = payload_ts p, text_col = payload_text p,
                   created_at = now\<rparr>"
proof -
  show "post_webhook cfg now req s =
          (Response 200 Status_ok,
           increment_webhook_request duplicate (log_json INFO 200 duplicate s))"
    if "has_message (db s) (payload_message_id p)"
    using assms that
    by (simp add: post_webhook_def webhook_def served_def insert_message_def)
  show "fst (post_webhook cfg now req s) = Response 200 Status_ok \<and>
        log_records (snd (post_webhook cfg now req s)) =
          log_records s @ [\<lparr>log_level_of = INFO, log_status = 200, log_result = success\<rparr>] \<and>
        lookup_message (db (snd (post_webhook cfg now req s))) (payload_message_id p) =
          Some \<lparr>message_id = payload_message_id p, from_msisdn = payload_from p,
                to_msisdn = payload_to p, ts = payload_ts p, text_col = payload_text p,
                created_at = now\<rparr>"
    if n: "\<not> has_message (db s) (payload_message_id p)"
  proof -
    have "find (\<lambda>r. message_id r = payload_message_id p) (messages (db s)) = None"
      using n by (auto simp: has_message_def list_ex_iff find_None_iff)
    then show ?thesis
      using assms n
      by (simp add: post_webhook_def webhook_def served_def insert_message_def Let_def
          increment_webhook_request_def log_json_def lookup_message_def find_append_None)
  qed
qed

lemma webhook_db_error:
  assumes "verify_signature cfg (body req) (x_signature req) = Inr True"
    and "model_validate_json (body_json req) = Inr p"
    and "\<not> available (db s)"
  shows "post_webhook cfg now req s =
           (Response 500 (Detail (ascii ''database error'')),
            increment_webhook_request db_error (log_json ERROR 500 db_error s))"
  using assms by (simp add: post_webhook_def webhook_def served_def insert_message_def)

text \<open>
  C2 at a signature that is not ASCII.  The octet \<open>0xE9\<close> in \<open>X-Signature\<close> fails
  verification, but \<open>hmac.compare_digest\<close> raises \<open>TypeError\<close> on it: the endpoint is left
  by the exception, the client receives 500, and no outcome is logged or counted.  (The
  body is still not parsed and nothing is inserted.)
\<close>

theorem webhook_non_ascii_signature:
  "webhook test_config now latin1_signature_request s = (Inl TypeError, s) \<and>
   post_webhook test_config now latin1_signature_request s =
     (Response 500 Internal_server_error, s)"
proof -
  have "verify_signature test_config empty_object_body (Some [233]) = Inl TypeError"
    using verify_signature_ascii [OF encode_test_secret, of "[233]" empty_object_body]
    by (simp add: is_ascii_def)
  then show ?thesis
    by (simp add: webhook_def post_webhook_def served_def latin1_signature_request_def)
qed

text \<open>
  C5 at the body \<^verbatim>\<open>{}\<close> with a correct signature.  The payload fails validation, the
  outcome \<open>validation_error\<close> is logged with status 422 and counted, nothing is inserted,
  and the \<open>ValidationError\<close> is raised again; no handler answers it with 422, so the
  client receives 500.
\<close>

theorem webhook_validation_error_response:
  "webhook test_config now signed_empty_object_request s =
     (Inl ValidationError,
      increment_webhook_request validation_error (log_json ERROR 422 validation_error s)) \<and>
   post_webhook test_config now signed_empty_object_request s =
     (Response 500 Internal_server_error,
      increment_webhook_request validation_error (log_json ERROR 422 validation_error s)) \<and>
   db (snd (post_webhook test_config now signed_empty_object_request s)) = db s"
proof -
  have v: "verify_signature test_config empty_object_body
             (Some (valid_signature empty_object_body)) = Inr True"
    by (rule verify_valid_signature)
  have m: "model_validate_json (Some (JObject [])) = Inl ValidationError"
    by (simp add: model_validate_json_def field_message_id_def required_str_def)
  show ?thesis
    using v m
    by (simp add: webhook_def post_webhook_def served_def signed_empty_object_request_def
        increment_webhook_request_def log_json_def)
qed

section \<open>A test vector for the HMAC model\<close>

text \<open>
  The model of HMAC-SHA256 on a published test vector (RFC 4231, test case 2): the key
  \<open>Jefe\<close> and the data \<open>what do ya want for nothing?\<close>.
\<close>

lemma hmac_sha256_test_vector:
  "hexdigest (hmac_sha256 (ascii_bytes ''Jefe'') (ascii_bytes ''what do ya want for nothing?'')) =
     ascii ''5bdcc146bf60754e6a042426089575c75a003f089d2739839dec58b964ec3843''"
  by code_simp


end
